theory Spec2Isabelle
  imports Complex_Main
begin

section \<open>Event model (event-types.ts)\<close>

text \<open>
  JavaScript strings are kept as their UTF-8 bytes in \<^typ>\<open>string\<close>; numbers are
  finite doubles read as reals (\<open>Math.floor\<close> is exact on them), so NaN and the
  infinities are outside the model; \<open>Date.now()\<close> is an integer of milliseconds.
\<close>

datatype EventSeverity = INFO | WARNING | ERROR | SUCCESS

text \<open>The values a payload field (\<open>Record<string, unknown>\<close>) can hold.\<close>

datatype jsval =
    JUndefined
  | JNull
  | JBool bool
  | JNum real
  | JStr string
  | JObj "(string \<times> jsval) list"

record MinecraftEvent =
  type :: string
  timestamp :: int
  severity :: EventSeverity
  description :: string
  data :: "(string \<times> jsval) list option"

section \<open>EventManager (event-manager.ts)\<close>

subsection \<open>JavaScript \<open>Set\<close>: insertion order, live iteration\<close>

text \<open>
  A \<open>Set\<close> is its list of entries in insertion order. \<open>delete\<close> empties the entry
  in place (\<open>None\<close>), \<open>add\<close> appends unless the value is present, and an iterator
  is an index into the entry list that skips emptied entries and reads the current
  length at every step: this is the entry-list semantics of ECMAScript, under which a
  value added while a \<open>for ... of\<close> runs is visited and one deleted before its turn
  is not.
\<close>

type_synonym 'a jsset = "'a option list"

definition set_has :: "'a jsset \<Rightarrow> 'a \<Rightarrow> bool" where
  "set_has s v = (Some v \<in> set s)"

definition set_add :: "'a jsset \<Rightarrow> 'a \<Rightarrow> 'a jsset" where
  "set_add s v = (if set_has s v then s else s @ [Some v])"

definition set_delete :: "'a jsset \<Rightarrow> 'a \<Rightarrow> 'a jsset" where
  "set_delete s v = map (\<lambda>e. if e = Some v then None else e) s"

definition set_clear :: "'a jsset \<Rightarrow> 'a jsset" where
  "set_clear s = map (\<lambda>e. None) s"

text \<open>The members, in iteration order.\<close>

fun set_values :: "'a jsset \<Rightarrow> 'a list" where
  "set_values [] = []"
| "set_values (None # s) = set_values s"
| "set_values (Some v # s) = v # set_values s"

subsection \<open>State\<close>

text \<open>
  Listeners and filters are JavaScript functions, compared by identity: here they are
  natural numbers, and what they do when called is looked up in a table. A filter
  returns a boolean or throws. A listener returns or throws (a rejected promise is a
  throw at the \<open>await\<close>), and while it runs it may call the public methods of the
  manager; \<open>Push\<close> is the history entry of another emission.
\<close>

datatype hubcall =
    On string nat
  | Off string nat
  | AddF nat
  | RemoveF nat
  | SetMax int
  | Clear
  | RemoveAll
  | Push MinecraftEvent

record reaction =
  calls :: "hubcall list"
  throws :: "string option"

type_synonym filterTable = "nat \<Rightarrow> MinecraftEvent \<Rightarrow> string + bool"
type_synonym listenerTable = "nat \<Rightarrow> MinecraftEvent \<Rightarrow> reaction"

text \<open>
  \<open>emit\<close> is \<open>async\<close>: at every \<open>await listener(event)\<close> it is suspended, and
  whatever code is ready to run (a caller that did not await the promise of \<open>emit\<close>,
  another emission in progress) runs before the loop goes on. The interference is what
  that code does to the manager: the calls made during the suspension that follows
  the \<open>k\<close>-th listener call of the run. \<open>idle\<close> is a program in which every
  \<open>emit\<close> is awaited and nothing else runs.
\<close>

type_synonym interference = "nat \<Rightarrow> hubcall list"

definition idle :: interference where
  "idle k = []"

text \<open>
  The \<open>Map\<close> holds one \<open>Set\<close> object per event type. A \<open>Set\<close> object is known by
  its address in \<open>setObjects\<close>: \<open>Map.clear\<close> forgets the addresses and leaves the
  objects as they are, so a loop that runs over one goes on with its members. The
  fields \<open>globalListeners\<close> and \<open>filters\<close> are never assigned again, so these two
  objects are kept in the record itself.
\<close>

record EventManager =
  listeners :: "string \<rightharpoonup> nat"
  setObjects :: "nat \<Rightarrow> nat jsset"
  allocated :: nat
  globalListeners :: "nat jsset"
  filters :: "nat jsset"
  eventHistory :: "MinecraftEvent list"
  maxHistorySize :: int

definition newEventManager :: EventManager where
  "newEventManager =
     \<lparr>listeners = Map.empty, setObjects = (\<lambda>a. []), allocated = 0, globalListeners = [],
      filters = [], eventHistory = [], maxHistorySize = 1000\<rparr>"

text \<open>
  A run of the manager: its state, the calls of listeners made so far by the
  emissions of the client (in which loop of \<open>emit\<close>, which listener, which
  event), and the lines they made \<open>console.error\<close> write. Of an emission that a
  listener or the interference starts, the run has what it does to the manager: its
  history entry and the calls that its listeners make.
\<close>

datatype slot = Kind string | Wildcard

record run =
  hub :: EventManager
  invoked :: "(slot \<times> nat \<times> MinecraftEvent) list"
  console :: "(slot \<times> string) list"

definition newRun :: run where
  "newRun = \<lparr>hub = newEventManager, invoked = [], console = []\<rparr>"

subsection \<open>Registration\<close>

text \<open>
  \<open>on\<close> with \<open>'*'\<close> adds to the wildcard set, otherwise to the set of the event
  type, made first when the \<open>Map\<close> has none; \<open>off\<close> deletes from the set of the
  event type if there is one.
\<close>

definition on :: "string \<Rightarrow> nat \<Rightarrow> EventManager \<Rightarrow> EventManager" where
  "on eventType listener h =
     (if eventType = ''*'' then h\<lparr>globalListeners := set_add (globalListeners h) listener\<rparr>
      else (case listeners h eventType of
              None \<Rightarrow>
                h\<lparr>listeners := (listeners h)(eventType \<mapsto> allocated h),
                  setObjects := (setObjects h)(allocated h := set_add [] listener),
                  allocated := Suc (allocated h)\<rparr>
            | Some a \<Rightarrow> h\<lparr>setObjects := (setObjects h)(a := set_add (setObjects h a) listener)\<rparr>))"

definition off :: "string \<Rightarrow> nat \<Rightarrow> EventManager \<Rightarrow> EventManager" where
  "off eventType listener h =
     (if eventType = ''*'' then h\<lparr>globalListeners := set_delete (globalListeners h) listener\<rparr>
      else (case listeners h eventType of
              None \<Rightarrow> h
            | Some a \<Rightarrow> h\<lparr>setObjects := (setObjects h)(a := set_delete (setObjects h a) listener)\<rparr>))"

definition addFilter :: "nat \<Rightarrow> EventManager \<Rightarrow> EventManager" where
  "addFilter f h = h\<lparr>filters := set_add (filters h) f\<rparr>"

definition removeFilter :: "nat \<Rightarrow> EventManager \<Rightarrow> EventManager" where
  "removeFilter f h = h\<lparr>filters := set_delete (filters h) f\<rparr>"

text \<open>
  \<open>removeAllListeners\<close>: \<open>Map.clear\<close> drops every key, \<open>Set.clear\<close> empties
  every entry of the wildcard set.
\<close>

definition removeAllListeners :: "EventManager \<Rightarrow> EventManager" where
  "removeAllListeners h =
     h\<lparr>listeners := Map.empty, globalListeners := set_clear (globalListeners h)\<rparr>"

text \<open>The listeners of an event type, in iteration order of their set.\<close>

definition listenersOf :: "string \<Rightarrow> EventManager \<Rightarrow> nat jsset" where
  "listenersOf eventType h =
     (case listeners h eventType of None \<Rightarrow> [] | Some a \<Rightarrow> setObjects h a)"

subsection \<open>History\<close>

text \<open>\<open>push\<close>, then one \<open>shift\<close> when the length exceeds \<open>maxHistorySize\<close>.\<close>

definition addToHistory :: "MinecraftEvent \<Rightarrow> EventManager \<Rightarrow> EventManager" where
  "addToHistory event h =
     (let pushed = eventHistory h @ [event]
      in h\<lparr>eventHistory :=
             (if int (length pushed) > maxHistorySize h then tl pushed else pushed)\<rparr>)"

definition setMaxHistorySize :: "int \<Rightarrow> EventManager \<Rightarrow> EventManager" where
  "setMaxHistorySize sz h = h\<lparr>maxHistorySize := sz\<rparr>"

definition clearHistory :: "EventManager \<Rightarrow> EventManager" where
  "clearHistory h = h\<lparr>eventHistory := []\<rparr>"

text \<open>
  \<open>Array.prototype.slice(start)\<close> for an integer \<open>start\<close>: a negative start counts
  from the end, and \<open>-0\<close> is \<open>0\<close>.
\<close>

definition js_slice :: "int \<Rightarrow> 'a list \<Rightarrow> 'a list" where
  "js_slice start xs =
     (let len = int (length xs);
          k = (if start < 0 then max (len + start) 0 else min start len)
      in drop (nat k) xs)"

text \<open>
  \<open>getHistory(eventType?, limit = 100)\<close>: an absent argument is \<open>None\<close>; the kind
  filter is applied when \<open>eventType\<close> is truthy, that is, a non-empty string. The
  result is a fresh array and the manager is only read.
\<close>

definition getHistory :: "string option \<Rightarrow> int option \<Rightarrow> EventManager \<Rightarrow> MinecraftEvent list" where
  "getHistory eventType limit h =
     (let lim = (case limit of None \<Rightarrow> 100 | Some l \<Rightarrow> l);
          events = (case eventType of
                      None \<Rightarrow> eventHistory h
                    | Some t \<Rightarrow> if t = [] then eventHistory h
                               else filter (\<lambda>e. type e = t) (eventHistory h))
      in js_slice (- lim) events)"

subsection \<open>Emission\<close>

text \<open>
  The filter loop: the filters called, in order, and the verdict. The loop returns at
  the first filter that answers false; a filter that throws ends \<open>emit\<close> with its
  exception, since the loop is not inside a \<open>try\<close>. There is no \<open>await\<close> in
  this loop, nor between it and the first call of a listener.
\<close>

fun runFilters :: "filterTable \<Rightarrow> nat list \<Rightarrow> MinecraftEvent \<Rightarrow> nat list \<times> (string + bool)" where
  "runFilters ft [] event = ([], Inr True)"
| "runFilters ft (f # fs) event =
     (case ft f event of
        Inl err \<Rightarrow> ([f], Inl err)
      | Inr False \<Rightarrow> ([f], Inr False)
      | Inr True \<Rightarrow> (let (called, verdict) = runFilters ft fs event in (f # called, verdict)))"

definition applyCall :: "EventManager \<Rightarrow> hubcall \<Rightarrow> EventManager" where
  "applyCall h c =
     (case c of
        On k l \<Rightarrow> on k l h
      | Off k l \<Rightarrow> off k l h
      | AddF f \<Rightarrow> addFilter f h
      | RemoveF f \<Rightarrow> removeFilter f h
      | SetMax sz \<Rightarrow> setMaxHistorySize sz h
      | Clear \<Rightarrow> clearHistory h
      | RemoveAll \<Rightarrow> removeAllListeners h
      | Push event \<Rightarrow> addToHistory event h)"

text \<open>
  One \<open>try { await listener(event) } catch (error) { console.error(...) }\<close>: the
  call is recorded, the listener's own calls to the manager take effect, and an
  exception becomes a console line. Then \<open>emit\<close> is suspended, and the calls of
  the interference take effect before the loop looks at its set again.
\<close>

definition callListener :: "listenerTable \<Rightarrow> slot \<Rightarrow> nat \<Rightarrow> MinecraftEvent \<Rightarrow> run \<Rightarrow> string option \<times> run" where
  "callListener lt sl l event r =
     (throws (lt l event),
      r\<lparr>hub := foldl applyCall (hub r) (calls (lt l event)),
        invoked := invoked r @ [(sl, l, event)]\<rparr>)"

definition suspended :: "interference \<Rightarrow> run \<Rightarrow> run" where
  "suspended env r = r\<lparr>hub := foldl applyCall (hub r) (env (length (invoked r)))\<rparr>"

text \<open>The \<open>Set\<close> object a loop of \<open>emit\<close> runs over.\<close>

datatype setref = TypeSet nat | GlobalSet

definition theSet :: "setref \<Rightarrow> EventManager \<Rightarrow> nat jsset" where
  "theSet ref h = (case ref of TypeSet a \<Rightarrow> setObjects h a | GlobalSet \<Rightarrow> globalListeners h)"

text \<open>
  One \<open>for (const listener of set)\<close> of \<open>emit\<close>, from entry \<open>i\<close> on. The object
  is read again at every step, so what was done to it in the meantime is seen by the
  loop. A listener that keeps adding listeners keeps the loop running: the number
  \<open>n\<close> bounds the steps, and \<open>None\<close> means the bound was reached.
\<close>

fun fanOut ::
  "listenerTable \<Rightarrow> interference \<Rightarrow> nat \<Rightarrow> slot \<Rightarrow> setref \<Rightarrow> nat \<Rightarrow> MinecraftEvent \<Rightarrow> run \<Rightarrow>
   run option" where
  "fanOut lt env 0 sl ref i event r = None"
| "fanOut lt env (Suc n) sl ref i event r =
     (let s = theSet ref (hub r)
      in if length s \<le> i then Some r
         else (case s ! i of
                 None \<Rightarrow> fanOut lt env n sl ref (Suc i) event r
               | Some l \<Rightarrow>
                   (case callListener lt sl l event r of
                      (None, r') \<Rightarrow> fanOut lt env n sl ref (Suc i) event (suspended env r')
                    | (Some err, r') \<Rightarrow>
                        fanOut lt env n sl ref (Suc i) event
                          (suspended env (r'\<lparr>console := console r' @ [(sl, err)]\<rparr>)))))"

text \<open>
  The first loop: \<open>this.listeners.get(event.type)\<close> is read once, and the loop
  runs over that object.
\<close>

definition typeFanOut ::
  "listenerTable \<Rightarrow> interference \<Rightarrow> nat \<Rightarrow> MinecraftEvent \<Rightarrow> run \<Rightarrow> run option" where
  "typeFanOut lt env n event r =
     (case listeners (hub r) (type event) of
        None \<Rightarrow> Some r
      | Some typeListeners \<Rightarrow> fanOut lt env n (Kind (type event)) (TypeSet typeListeners) 0 event r)"

text \<open>
  \<open>emit(event)\<close>. \<open>Some (Inl err)\<close>: the promise is rejected with \<open>err\<close>;
  \<open>Some (Inr r)\<close>: it is fulfilled in state \<open>r\<close>; \<open>None\<close>: the step bound of a
  listener loop was reached.
\<close>

definition emit ::
  "filterTable \<Rightarrow> listenerTable \<Rightarrow> interference \<Rightarrow> nat \<Rightarrow> MinecraftEvent \<Rightarrow> run \<Rightarrow>
   (string + run) option" where
  "emit ft lt env n event r =
     (case snd (runFilters ft (set_values (filters (hub r))) event) of
        Inl err \<Rightarrow> Some (Inl err)
      | Inr False \<Rightarrow> Some (Inr r)
      | Inr True \<Rightarrow>
          (case typeFanOut lt env n event (r\<lparr>hub := addToHistory event (hub r)\<rparr>) of
             None \<Rightarrow> None
           | Some r2 \<Rightarrow> map_option Inr (fanOut lt env n Wildcard GlobalSet 0 event r2)))"

text \<open>
  \<open>createAndEmit\<close> stamps the event with the clock reading \<open>now\<close>, taken when
  it is called.
\<close>

definition createAndEmit ::
  "filterTable \<Rightarrow> listenerTable \<Rightarrow> interference \<Rightarrow> nat \<Rightarrow> int \<Rightarrow> string \<Rightarrow> EventSeverity \<Rightarrow>
   string \<Rightarrow> (string \<times> jsval) list option \<Rightarrow> run \<Rightarrow> (string + run) option" where
  "createAndEmit ft lt env n now ty sev descr dat r =
     emit ft lt env n
       \<lparr>type = ty, timestamp = now, severity = sev, description = descr, data = dat\<rparr> r"

text \<open>
  A client of the manager is a sequence of calls of its public methods, each awaited
  before the next; the first rejected promise ends the sequence. What runs while an
  emission of the sequence is suspended is the interference.
\<close>

datatype call =
    Emit MinecraftEvent
  | CreateAndEmit int string EventSeverity string "(string \<times> jsval) list option"
  | Subscribe string nat
  | Unsubscribe string nat
  | AddFilter nat
  | RemoveFilter nat
  | SetMaxHistorySize int
  | ClearHistory
  | RemoveAllListeners

fun perform ::
  "filterTable \<Rightarrow> listenerTable \<Rightarrow> interference \<Rightarrow> nat \<Rightarrow> call \<Rightarrow> run \<Rightarrow> (string + run) option" where
  "perform ft lt env n (Emit event) r = emit ft lt env n event r"
| "perform ft lt env n (CreateAndEmit now ty sev descr dat) r =
     createAndEmit ft lt env n now ty sev descr dat r"
| "perform ft lt env n (Subscribe k l) r = Some (Inr (r\<lparr>hub := on k l (hub r)\<rparr>))"
| "perform ft lt env n (Unsubscribe k l) r = Some (Inr (r\<lparr>hub := off k l (hub r)\<rparr>))"
| "perform ft lt env n (AddFilter f) r = Some (Inr (r\<lparr>hub := addFilter f (hub r)\<rparr>))"
| "perform ft lt env n (RemoveFilter f) r = Some (Inr (r\<lparr>hub := removeFilter f (hub r)\<rparr>))"
| "perform ft lt env n (SetMaxHistorySize sz) r = Some (Inr (r\<lparr>hub := setMaxHistorySize sz (hub r)\<rparr>))"
| "perform ft lt env n ClearHistory r = Some (Inr (r\<lparr>hub := clearHistory (hub r)\<rparr>))"
| "perform ft lt env n RemoveAllListeners r = Some (Inr (r\<lparr>hub := removeAllListeners (hub r)\<rparr>))"

fun performAll ::
  "filterTable \<Rightarrow> listenerTable \<Rightarrow> interference \<Rightarrow> nat \<Rightarrow> call list \<Rightarrow> run \<Rightarrow> (string + run) option" where
  "performAll ft lt env n [] r = Some (Inr r)"
| "performAll ft lt env n (c # cs) r =
     (case perform ft lt env n c r of
        Some (Inr r') \<Rightarrow> performAll ft lt env n cs r'
      | other \<Rightarrow> other)"

subsection \<open>Observing listeners\<close>

text \<open>
  A table in which no listener throws, a run with the console wiped, and the console
  lines that the listener calls \<open>new\<close> leave: one for each call that throws.
\<close>

definition silenced :: "listenerTable \<Rightarrow> listenerTable" where
  "silenced lt l event = (lt l event)\<lparr>throws := None\<rparr>"

definition withoutConsole :: "run \<Rightarrow> run" where
  "withoutConsole r = r\<lparr>console := []\<rparr>"

definition thrownBy :: "listenerTable \<Rightarrow> (slot \<times> nat \<times> MinecraftEvent) list \<Rightarrow> (slot \<times> string) list" where
  "thrownBy lt new =
     List.map_filter (\<lambda>(sl, l, event). map_option (Pair sl) (throws (lt l event))) new"

text \<open>
  The state after the step of a loop at an entry that holds the listener \<open>l\<close>:
  the call, the console line if it throws, and the suspension.
\<close>

definition afterCall :: "listenerTable \<Rightarrow> interference \<Rightarrow> slot \<Rightarrow> nat \<Rightarrow> MinecraftEvent \<Rightarrow> run \<Rightarrow> run" where
  "afterCall lt env sl l event r =
     suspended env
       (r\<lparr>hub := foldl applyCall (hub r) (calls (lt l event)),
          invoked := invoked r @ [(sl, l, event)],
          console := console r @ thrownBy lt [(sl, l, event)]\<rparr>)"

text \<open>
  A call that leaves the wildcard set \<open>g\<close> as it is: \<open>on\<close> of a member, \<open>off\<close>
  of a non-member, \<open>removeAllListeners\<close> when there is no member, and every call
  that is about something else. A call that subscribes a listener to the type \<open>k\<close>.
\<close>

definition keepsWildcards :: "nat jsset \<Rightarrow> hubcall \<Rightarrow> bool" where
  "keepsWildcards g c =
     (case c of
        On k l \<Rightarrow> if k = ''*'' then set_has g l else True
      | Off k l \<Rightarrow> if k = ''*'' then set_has g l = False else True
      | RemoveAll \<Rightarrow> set_values g = []
      | _ \<Rightarrow> True)"

definition subscribesTo :: "string \<Rightarrow> hubcall \<Rightarrow> bool" where
  "subscribesTo k c = (case c of On k' l \<Rightarrow> k' = k | _ \<Rightarrow> False)"

subsection \<open>Sample values\<close>

definition sampleEvent :: "string \<Rightarrow> int \<Rightarrow> MinecraftEvent" where
  "sampleEvent ty t =
     \<lparr>type = ty, timestamp = t, severity = INFO, description = ty, data = None\<rparr>"

definition acceptAll :: filterTable where
  "acceptAll f event = Inr True"

definition quiet :: listenerTable where
  "quiet l event = \<lparr>calls = [], throws = None\<rparr>"

text \<open>The state a client reaches from a new manager by calls that emit nothing.\<close>

definition reached :: "call list \<Rightarrow> run" where
  "reached cs =
     (case performAll acceptAll quiet idle 0 cs newRun of Some (Inr r) \<Rightarrow> r | _ \<Rightarrow> newRun)"

text \<open>
  Filter 1 accepts, filter 2 rejects \<open>move\<close> events, every other filter throws.
  Listener 1 throws, listener 4 subscribes listener 5 as a wildcard listener, listener
  6 unsubscribes the wildcard listener 7, listener 9 handles one \<open>chat\<close> event and
  unsubscribes itself, every other listener just returns.
\<close>

definition sampleFilters :: filterTable where
  "sampleFilters f event =
     (if f = 1 then Inr True
      else if f = 2 then Inr (type event \<noteq> ''move'')
      else Inl ''filter failed'')"

definition sampleListeners :: listenerTable where
  "sampleListeners l event =
     (if l = 1 then \<lparr>calls = [], throws = Some ''boom''\<rparr>
      else if l = 4 then \<lparr>calls = [On ''*'' 5], throws = None\<rparr>
      else if l = 6 then \<lparr>calls = [Off ''*'' 7], throws = None\<rparr>
      else if l = 9 then \<lparr>calls = [Off ''chat'' 9], throws = None\<rparr>
      else \<lparr>calls = [], throws = None\<rparr>)"

text \<open>
  A caller that does not await \<open>emit\<close>: while the first listener call of the run is
  awaited it unsubscribes the wildcard listener 7; and one that, at that moment,
  unsubscribes a \<open>move\<close> listener and changes the history capacity.
\<close>

definition unsubscribing :: interference where
  "unsubscribing k = (if k = 1 then [Off ''*'' 7] else [])"

definition busy :: interference where
  "busy k = (if k = 1 then [Off ''move'' 4, SetMax 50] else [])"

section \<open>EventNotifier (event-notifier.ts)\<close>

subsection \<open>What the JavaScript runtime provides\<close>

text \<open>
  The conversions of the language that the code relies on are parameters:
  \<open>toString\<close> is the string a template literal makes of a value,
  \<open>jsonStringify\<close> is \<open>JSON.stringify\<close> (\<open>None\<close> when it throws; its result
  is a string or \<open>undefined\<close>), and \<open>toLocaleTimeString\<close> renders a clock reading
  in the \<open>zh-CN\<close> locale.
\<close>

record runtime =
  toString :: "jsval \<Rightarrow> string"
  jsonStringify :: "jsval \<Rightarrow> jsval option"
  toLocaleTimeString :: "int \<Rightarrow> string"

text \<open>Truthiness of a value, and reading a property of it.\<close>

fun truthy :: "jsval \<Rightarrow> bool" where
  "truthy JUndefined = False"
| "truthy JNull = False"
| "truthy (JBool b) = b"
| "truthy (JNum v) = (v \<noteq> 0)"
| "truthy (JStr s) = (s \<noteq> [])"
| "truthy (JObj kvs) = True"

definition field :: "(string \<times> jsval) list \<Rightarrow> string \<Rightarrow> jsval" where
  "field kvs k = (case map_of kvs k of None \<Rightarrow> JUndefined | Some v \<Rightarrow> v)"

fun getProp :: "jsval \<Rightarrow> string \<Rightarrow> jsval" where
  "getProp (JObj kvs) k = field kvs k"
| "getProp v k = JUndefined"

fun join :: "string \<Rightarrow> string list \<Rightarrow> string" where
  "join sep [] = []"
| "join sep [p] = p"
| "join sep (p # q # ps) = p @ sep @ join sep (q # ps)"

subsection \<open>The texts of the source, as UTF-8\<close>

definition zh_event_notice :: string where \<comment> \<open>the tag of a notification line, "[event notice] "\<close>
  "zh_event_notice =
     ''['' @ [CHR 0xE4, CHR 0xBA, CHR 0x8B, CHR 0xE4, CHR 0xBB, CHR 0xB6, CHR 0xE9, CHR 0x80,
      CHR 0x9A, CHR 0xE7, CHR 0x9F, CHR 0xA5] @ ''] ''"

definition zh_cannot_send :: string where \<comment> \<open>"cannot send the notification through MCP, logging instead: "\<close>
  "zh_cannot_send =
     [CHR 0xE6, CHR 0x97, CHR 0xA0, CHR 0xE6, CHR 0xB3, CHR 0x95, CHR 0xE9, CHR 0x80, CHR 0x9A,
      CHR 0xE8, CHR 0xBF, CHR 0x87] @ '' MCP '' @ [CHR 0xE5, CHR 0x8F, CHR 0x91, CHR 0xE9,
      CHR 0x80, CHR 0x81, CHR 0xE9, CHR 0x80, CHR 0x9A, CHR 0xE7, CHR 0x9F, CHR 0xA5, CHR 0xEF,
      CHR 0xBC, CHR 0x8C, CHR 0xE4, CHR 0xBD, CHR 0xBF, CHR 0xE7, CHR 0x94, CHR 0xA8, CHR 0xE6,
      CHR 0x97, CHR 0xA5, CHR 0xE5, CHR 0xBF, CHR 0x97, CHR 0xE8, CHR 0xAE, CHR 0xB0, CHR 0xE5,
      CHR 0xBD, CHR 0x95] @ '': ''"

definition zh_notify_failed :: string where \<comment> \<open>"error while sending the event notification: "\<close>
  "zh_notify_failed =
     [CHR 0xE5, CHR 0x8F, CHR 0x91, CHR 0xE9, CHR 0x80, CHR 0x81, CHR 0xE4, CHR 0xBA, CHR 0x8B,
      CHR 0xE4, CHR 0xBB, CHR 0xB6, CHR 0xE9, CHR 0x80, CHR 0x9A, CHR 0xE7, CHR 0x9F, CHR 0xA5,
      CHR 0xE6, CHR 0x97, CHR 0xB6, CHR 0xE5, CHR 0x87, CHR 0xBA, CHR 0xE9, CHR 0x94,
      CHR 0x99] @ '': ''"

definition emoji_info :: string where \<comment> \<open>U+2139 U+FE0F\<close>
  "emoji_info =
     [CHR 0xE2, CHR 0x84, CHR 0xB9, CHR 0xEF, CHR 0xB8, CHR 0x8F]"

definition emoji_warning :: string where \<comment> \<open>U+26A0 U+FE0F\<close>
  "emoji_warning =
     [CHR 0xE2, CHR 0x9A, CHR 0xA0, CHR 0xEF, CHR 0xB8, CHR 0x8F]"

definition emoji_error :: string where \<comment> \<open>U+274C\<close>
  "emoji_error =
     [CHR 0xE2, CHR 0x9D, CHR 0x8C]"

definition emoji_success :: string where \<comment> \<open>U+2705\<close>
  "emoji_success =
     [CHR 0xE2, CHR 0x9C, CHR 0x85]"

definition zh_details :: string where \<comment> \<open>a newline, then "   details: "\<close>
  "zh_details =
     [CHR 0x0A] @ ''   '' @ [CHR 0xE8, CHR 0xAF, CHR 0xA6, CHR 0xE6, CHR 0x83,
      CHR 0x85] @ '': ''"

definition zh_position :: string where \<comment> \<open>"position: ("\<close>
  "zh_position =
     [CHR 0xE4, CHR 0xBD, CHR 0x8D, CHR 0xE7, CHR 0xBD, CHR 0xAE] @ '': (''"

definition zh_player :: string where \<comment> \<open>"player: "\<close>
  "zh_player =
     [CHR 0xE7, CHR 0x8E, CHR 0xA9, CHR 0xE5, CHR 0xAE, CHR 0xB6] @ '': ''"

definition zh_health :: string where \<comment> \<open>"health: "\<close>
  "zh_health =
     [CHR 0xE7, CHR 0x94, CHR 0x9F, CHR 0xE5, CHR 0x91, CHR 0xBD, CHR 0xE5, CHR 0x80,
      CHR 0xBC] @ '': ''"

definition zh_entity_type :: string where \<comment> \<open>"entity type: "\<close>
  "zh_entity_type =
     [CHR 0xE5, CHR 0xAE, CHR 0x9E, CHR 0xE4, CHR 0xBD, CHR 0x93, CHR 0xE7, CHR 0xB1, CHR 0xBB,
      CHR 0xE5, CHR 0x9E, CHR 0x8B] @ '': ''"

definition zh_block :: string where \<comment> \<open>"block: "\<close>
  "zh_block =
     [CHR 0xE6, CHR 0x96, CHR 0xB9, CHR 0xE5, CHR 0x9D, CHR 0x97] @ '': ''"

definition zh_reason :: string where \<comment> \<open>"reason: "\<close>
  "zh_reason =
     [CHR 0xE5, CHR 0x8E, CHR 0x9F, CHR 0xE5, CHR 0x9B, CHR 0xA0] @ '': ''"

definition zh_message :: string where \<comment> \<open>"message: "\<close>
  "zh_message =
     [CHR 0xE6, CHR 0xB6, CHR 0x88, CHR 0xE6, CHR 0x81, CHR 0xAF] @ '': ''"

subsection \<open>State\<close>

text \<open>
  Of the MCP server only three optional methods are used. Each is absent (not a
  function), or a function whose call succeeds, or a function whose call throws.
\<close>

datatype capability = Absent | Succeeds | Throws string

record McpServer =
  notification :: capability
  sendNotification :: capability
  prompt :: capability

record EventNotifier =
  server :: "McpServer option"
  enabled :: bool
  importantEventTypes :: "string jsset"

definition newEventNotifier :: EventNotifier where
  "newEventNotifier =
     \<lparr>server = None, enabled = True,
      importantEventTypes =
        map Some
          [''chat'', ''death'', ''respawn'', ''kicked'', ''error'', ''entity_hurt'',
           ''entity_death'', ''block_break'', ''block_place'', ''item_collect'', ''damage'',
           ''health_change'', ''gamemode_change'', ''spawn'', ''login'']\<rparr>"

definition setServer :: "McpServer \<Rightarrow> EventNotifier \<Rightarrow> EventNotifier" where
  "setServer srv nt = nt\<lparr>server := Some srv\<rparr>"

definition setEnabled :: "bool \<Rightarrow> EventNotifier \<Rightarrow> EventNotifier" where
  "setEnabled b nt = nt\<lparr>enabled := b\<rparr>"

definition addImportantEventType :: "string \<Rightarrow> EventNotifier \<Rightarrow> EventNotifier" where
  "addImportantEventType eventType nt =
     nt\<lparr>importantEventTypes := set_add (importantEventTypes nt) eventType\<rparr>"

definition removeImportantEventType :: "string \<Rightarrow> EventNotifier \<Rightarrow> EventNotifier" where
  "removeImportantEventType eventType nt =
     nt\<lparr>importantEventTypes := set_delete (importantEventTypes nt) eventType\<rparr>"

subsection \<open>Formatting\<close>

definition formatEventData :: "runtime \<Rightarrow> (string \<times> jsval) list \<Rightarrow> string" where
  "formatEventData rt d =
     join '', ''
       ((if truthy (field d ''position'')
         then [zh_position @ toString rt (getProp (field d ''position'') ''x'') @ '', ''
                 @ toString rt (getProp (field d ''position'') ''y'') @ '', ''
                 @ toString rt (getProp (field d ''position'') ''z'') @ '')'']
         else [])
        @ (if truthy (field d ''username'')
           then [zh_player @ toString rt (field d ''username'')] else [])
        @ (if field d ''health'' \<noteq> JUndefined \<and> field d ''maxHealth'' \<noteq> JUndefined
           then [zh_health @ toString rt (field d ''health'') @ ''/''
                   @ toString rt (field d ''maxHealth'')]
           else [])
        @ (if truthy (field d ''entityType'')
           then [zh_entity_type @ toString rt (field d ''entityType'')] else [])
        @ (if truthy (field d ''blockName'')
           then [zh_block @ toString rt (field d ''blockName'')] else [])
        @ (if truthy (field d ''reason'')
           then [zh_reason @ toString rt (field d ''reason'')] else [])
        @ (if truthy (field d ''message'')
           then [zh_message @ toString rt (field d ''message'')] else []))"

text \<open>
  The table of \<open>formatEventForAI\<close>; its fallback \<open>|| '...'\<close> is for a severity
  outside the enumeration and has no case here.
\<close>

definition severityEmoji :: "EventSeverity \<Rightarrow> string" where
  "severityEmoji s =
     (case s of INFO \<Rightarrow> emoji_info | WARNING \<Rightarrow> emoji_warning
              | ERROR \<Rightarrow> emoji_error | SUCCESS \<Rightarrow> emoji_success)"

definition formatEventForAI :: "runtime \<Rightarrow> MinecraftEvent \<Rightarrow> string" where
  "formatEventForAI rt event =
     (let message = severityEmoji (severity event) @ '' ['' @ toLocaleTimeString rt (timestamp event)
                      @ ''] '' @ description event
      in case data event of
           None \<Rightarrow> message
         | Some d \<Rightarrow>
             (let dataStr = formatEventData rt d
              in if dataStr \<noteq> [] then message @ zh_details @ dataStr else message))"

subsection \<open>Delivery\<close>

text \<open>
  What the notifier does to the outside: a line of the logger, or a call of a method
  of the server with the message (and, for the two notification methods, the topic
  \<open>minecraft/event\<close> and the event's type, severity, timestamp and data).
\<close>

datatype effect =
    Log string string
  | ServerNotification string string MinecraftEvent
  | ServerSendNotification string string MinecraftEvent
  | ServerPrompt string string

text \<open>
  One call inside the \<open>try\<close> of \<open>sendMcpNotification\<close>: when it throws, the
  \<open>catch\<close> logs a warning and then the message.
\<close>

definition attempt :: "capability \<Rightarrow> effect \<Rightarrow> string \<Rightarrow> effect list" where
  "attempt c call message =
     (case c of
        Throws err \<Rightarrow> [call, Log ''warn'' (zh_cannot_send @ err), Log ''info'' (zh_event_notice @ message)]
      | _ \<Rightarrow> [call])"

definition sendMcpNotification :: "McpServer option \<Rightarrow> string \<Rightarrow> MinecraftEvent \<Rightarrow> effect list" where
  "sendMcpNotification srv message event =
     (case srv of
        None \<Rightarrow> []
      | Some s \<Rightarrow>
          if notification s \<noteq> Absent
          then attempt (notification s) (ServerNotification ''minecraft/event'' message event) message
          else if sendNotification s \<noteq> Absent
          then attempt (sendNotification s)
                 (ServerSendNotification ''minecraft/event'' message event) message
          else if prompt s \<noteq> Absent
          then attempt (prompt s) (ServerPrompt ''minecraft_event'' message) message
          else [Log ''info'' (zh_event_notice @ message)])"

definition shouldNotify :: "EventNotifier \<Rightarrow> MinecraftEvent \<Rightarrow> bool" where
  "shouldNotify nt event =
     (set_has (importantEventTypes nt) (type event)
      \<or> severity event = ERROR
      \<or> severity event = WARNING)"

text \<open>
  \<open>notify(event)\<close>: the effects, in order. Nothing in the \<open>try\<close> block throws
  in this model (formatting is total and \<open>sendMcpNotification\<close> catches its own
  exceptions), so the outer \<open>catch\<close> has no branch here.
\<close>

definition notify :: "runtime \<Rightarrow> EventNotifier \<Rightarrow> MinecraftEvent \<Rightarrow> effect list" where
  "notify rt nt event =
     (if \<not> enabled nt then []
      else if \<not> shouldNotify nt event then []
      else
        (let eventMessage = formatEventForAI rt event
         in case server nt of
              Some s \<Rightarrow> sendMcpNotification (Some s) eventMessage event
            | None \<Rightarrow> [Log ''info'' (zh_event_notice @ eventMessage)]))"

section \<open>BotEventRegistry (bot-event-registry.ts)\<close>

subsection \<open>What the bot provides\<close>

text \<open>
  The fields of the mineflayer objects that the handlers read. A field the code tests
  before use (\<open>entity.position ? ... : undefined\<close>, \<open>entity.name || entity.type\<close>,
  \<open>bot.entity?.position\<close>, \<open>maxHealth || 20\<close>) is optional. A thrown or passed
  reason is an \<open>Error\<close> object or any other value.
\<close>

datatype Vec3 = Vec3 (vx: real) (vy: real) (vz: real)

record Entity =
  entityId :: real
  entityType :: string
  entityName :: "string option"
  entityPosition :: "Vec3 option"
  entityHealth :: "real option"
  onGround :: bool

record Block =
  blockType :: real
  blockName :: string
  blockPosition :: Vec3

record Item =
  itemName :: string
  itemType :: real
  itemCount :: real

record Error =
  errorMessage :: string
  errorCode :: "string option"
  errorStack :: "string option"

datatype reason = AnError Error | AValue jsval

record Bot =
  username :: string
  entity :: "Entity option"
  health :: real
  maxHealth :: "real option"

text \<open>
  The signals the registry listens to, with their arguments. For \<open>itemCollect\<close> the
  boolean says whether the collector is the bot's own entity object.
\<close>

datatype signal =
    SigSpawn
  | SigLogin
  | SigKicked reason
  | SigEnd reason
  | SigChat string string
  | SigWhisper string string
  | SigEntityHurt Entity
  | SigEntityDead Entity
  | SigEntitySpawn Entity
  | SigEntityGone Entity
  | SigBlockUpdate "Block option" Block
  | SigBlockBreakProgressObserved Block real
  | SigItemDrop Entity
  | SigItemCollect bool Item
  | SigUpdateSlot real "Item option" "Item option"
  | SigHealth
  | SigHurt
  | SigDeath
  | SigRespawn
  | SigMove
  | SigJump
  | SigError Error

datatype emitter = OfBot | OfInventory

fun signalName :: "signal \<Rightarrow> emitter \<times> string" where
  "signalName SigSpawn = (OfBot, ''spawn'')"
| "signalName SigLogin = (OfBot, ''login'')"
| "signalName (SigKicked why) = (OfBot, ''kicked'')"
| "signalName (SigEnd why) = (OfBot, ''end'')"
| "signalName (SigChat u m) = (OfBot, ''chat'')"
| "signalName (SigWhisper u m) = (OfBot, ''whisper'')"
| "signalName (SigEntityHurt e) = (OfBot, ''entityHurt'')"
| "signalName (SigEntityDead e) = (OfBot, ''entityDead'')"
| "signalName (SigEntitySpawn e) = (OfBot, ''entitySpawn'')"
| "signalName (SigEntityGone e) = (OfBot, ''entityGone'')"
| "signalName (SigBlockUpdate old new) = (OfBot, ''blockUpdate'')"
| "signalName (SigBlockBreakProgressObserved b stage) = (OfBot, ''blockBreakProgressObserved'')"
| "signalName (SigItemDrop e) = (OfBot, ''itemDrop'')"
| "signalName (SigItemCollect isBot i) = (OfBot, ''itemCollect'')"
| "signalName (SigUpdateSlot sl old new) = (OfInventory, ''updateSlot'')"
| "signalName SigHealth = (OfBot, ''health'')"
| "signalName SigHurt = (OfBot, ''hurt'')"
| "signalName SigDeath = (OfBot, ''death'')"
| "signalName SigRespawn = (OfBot, ''respawn'')"
| "signalName SigMove = (OfBot, ''move'')"
| "signalName SigJump = (OfBot, ''jump'')"
| "signalName (SigError err) = (OfBot, ''error'')"

subsection \<open>The texts of the source, as UTF-8\<close>

definition zh_bot_spawned :: string where \<comment> \<open>"the bot has spawned in the world"\<close>
  "zh_bot_spawned =
     [CHR 0xE6, CHR 0x9C, CHR 0xBA, CHR 0xE5, CHR 0x99, CHR 0xA8, CHR 0xE4, CHR 0xBA, CHR 0xBA,
      CHR 0xE5, CHR 0xB7, CHR 0xB2, CHR 0xE7, CHR 0x94, CHR 0x9F, CHR 0xE6, CHR 0x88, CHR 0x90,
      CHR 0xE5, CHR 0x9C, CHR 0xA8, CHR 0xE4, CHR 0xB8, CHR 0x96, CHR 0xE7, CHR 0x95, CHR 0x8C,
      CHR 0xE4, CHR 0xB8, CHR 0xAD]"

definition zh_bot_logged_in :: string where \<comment> \<open>"the bot has logged in to the server"\<close>
  "zh_bot_logged_in =
     [CHR 0xE6, CHR 0x9C, CHR 0xBA, CHR 0xE5, CHR 0x99, CHR 0xA8, CHR 0xE4, CHR 0xBA, CHR 0xBA,
      CHR 0xE5, CHR 0xB7, CHR 0xB2, CHR 0xE7, CHR 0x99, CHR 0xBB, CHR 0xE5, CHR 0xBD, CHR 0x95,
      CHR 0xE6, CHR 0x9C, CHR 0x8D, CHR 0xE5, CHR 0x8A, CHR 0xA1, CHR 0xE5, CHR 0x99,
      CHR 0xA8]"

definition zh_bot_kicked :: string where \<comment> \<open>"the bot was kicked by the server: "\<close>
  "zh_bot_kicked =
     [CHR 0xE6, CHR 0x9C, CHR 0xBA, CHR 0xE5, CHR 0x99, CHR 0xA8, CHR 0xE4, CHR 0xBA, CHR 0xBA,
      CHR 0xE8, CHR 0xA2, CHR 0xAB, CHR 0xE6, CHR 0x9C, CHR 0x8D, CHR 0xE5, CHR 0x8A, CHR 0xA1,
      CHR 0xE5, CHR 0x99, CHR 0xA8, CHR 0xE8, CHR 0xB8, CHR 0xA2, CHR 0xE5, CHR 0x87,
      CHR 0xBA] @ '': ''"

definition zh_bot_disconnected :: string where \<comment> \<open>"the bot's connection was closed: "\<close>
  "zh_bot_disconnected =
     [CHR 0xE6, CHR 0x9C, CHR 0xBA, CHR 0xE5, CHR 0x99, CHR 0xA8, CHR 0xE4, CHR 0xBA, CHR 0xBA,
      CHR 0xE8, CHR 0xBF, CHR 0x9E, CHR 0xE6, CHR 0x8E, CHR 0xA5, CHR 0xE5, CHR 0xB7, CHR 0xB2,
      CHR 0xE6, CHR 0x96, CHR 0xAD, CHR 0xE5, CHR 0xBC, CHR 0x80] @ '': ''"

definition zh_whisper :: string where \<comment> \<open>"[whisper] "\<close>
  "zh_whisper =
     ''['' @ [CHR 0xE7, CHR 0xA7, CHR 0x81, CHR 0xE8, CHR 0x81, CHR 0x8A] @ ''] ''"

definition zh_entity :: string where \<comment> \<open>"entity "\<close>
  "zh_entity =
     [CHR 0xE5, CHR 0xAE, CHR 0x9E, CHR 0xE4, CHR 0xBD, CHR 0x93] @ '' ''"

definition zh_was_hurt :: string where \<comment> \<open>" was hurt"\<close>
  "zh_was_hurt =
     '' '' @ [CHR 0xE5, CHR 0x8F, CHR 0x97, CHR 0xE5, CHR 0x88, CHR 0xB0, CHR 0xE4, CHR 0xBC,
      CHR 0xA4, CHR 0xE5, CHR 0xAE, CHR 0xB3]"

definition zh_died :: string where \<comment> \<open>" died"\<close>
  "zh_died =
     '' '' @ [CHR 0xE6, CHR 0xAD, CHR 0xBB, CHR 0xE4, CHR 0xBA, CHR 0xA1]"

definition zh_spawned :: string where \<comment> \<open>" spawned"\<close>
  "zh_spawned =
     '' '' @ [CHR 0xE7, CHR 0x94, CHR 0x9F, CHR 0xE6, CHR 0x88, CHR 0x90]"

definition zh_gone :: string where \<comment> \<open>" is gone"\<close>
  "zh_gone =
     '' '' @ [CHR 0xE6, CHR 0xB6, CHR 0x88, CHR 0xE5, CHR 0xA4, CHR 0xB1]"

definition zh_block_update :: string where \<comment> \<open>"block update: "\<close>
  "zh_block_update =
     [CHR 0xE6, CHR 0x96, CHR 0xB9, CHR 0xE5, CHR 0x9D, CHR 0x97, CHR 0xE6, CHR 0x9B, CHR 0xB4,
      CHR 0xE6, CHR 0x96, CHR 0xB0] @ '': ''"

definition zh_block_broken :: string where \<comment> \<open>"block broken: "\<close>
  "zh_block_broken =
     [CHR 0xE6, CHR 0x96, CHR 0xB9, CHR 0xE5, CHR 0x9D, CHR 0x97, CHR 0xE8, CHR 0xA2, CHR 0xAB,
      CHR 0xE7, CHR 0xA0, CHR 0xB4, CHR 0xE5, CHR 0x9D, CHR 0x8F] @ '': ''"

definition zh_item_dropped :: string where \<comment> \<open>"item dropped: "\<close>
  "zh_item_dropped =
     [CHR 0xE7, CHR 0x89, CHR 0xA9, CHR 0xE5, CHR 0x93, CHR 0x81, CHR 0xE6, CHR 0x8E, CHR 0x89,
      CHR 0xE8, CHR 0x90, CHR 0xBD] @ '': ''"

definition zh_the_bot :: string where \<comment> \<open>"the bot"\<close>
  "zh_the_bot =
     [CHR 0xE6, CHR 0x9C, CHR 0xBA, CHR 0xE5, CHR 0x99, CHR 0xA8, CHR 0xE4, CHR 0xBA,
      CHR 0xBA]"

definition zh_an_entity :: string where \<comment> \<open>"an entity"\<close>
  "zh_an_entity =
     [CHR 0xE5, CHR 0xAE, CHR 0x9E, CHR 0xE4, CHR 0xBD, CHR 0x93]"

definition zh_collected :: string where \<comment> \<open>" collected the item: "\<close>
  "zh_collected =
     '' '' @ [CHR 0xE6, CHR 0x94, CHR 0xB6, CHR 0xE9, CHR 0x9B, CHR 0x86, CHR 0xE7, CHR 0x89,
      CHR 0xA9, CHR 0xE5, CHR 0x93, CHR 0x81] @ '': ''"

definition zh_inventory_update :: string where \<comment> \<open>"inventory update: slot "\<close>
  "zh_inventory_update =
     [CHR 0xE7, CHR 0x89, CHR 0xA9, CHR 0xE5, CHR 0x93, CHR 0x81, CHR 0xE6, CHR 0xA0, CHR 0x8F,
      CHR 0xE6, CHR 0x9B, CHR 0xB4, CHR 0xE6, CHR 0x96, CHR 0xB0] @ '': '' @ [CHR 0xE6,
      CHR 0xA7, CHR 0xBD, CHR 0xE4, CHR 0xBD, CHR 0x8D] @ '' ''"

definition zh_health_change :: string where \<comment> \<open>"health change: "\<close>
  "zh_health_change =
     [CHR 0xE7, CHR 0x94, CHR 0x9F, CHR 0xE5, CHR 0x91, CHR 0xBD, CHR 0xE5, CHR 0x80, CHR 0xBC,
      CHR 0xE5, CHR 0x8F, CHR 0x98, CHR 0xE5, CHR 0x8C, CHR 0x96] @ '': ''"

definition zh_bot_hurt :: string where \<comment> \<open>"the bot was hurt: "\<close>
  "zh_bot_hurt =
     [CHR 0xE6, CHR 0x9C, CHR 0xBA, CHR 0xE5, CHR 0x99, CHR 0xA8, CHR 0xE4, CHR 0xBA, CHR 0xBA,
      CHR 0xE5, CHR 0x8F, CHR 0x97, CHR 0xE5, CHR 0x88, CHR 0xB0, CHR 0xE4, CHR 0xBC, CHR 0xA4,
      CHR 0xE5, CHR 0xAE, CHR 0xB3] @ '': ''"

definition zh_bot_died :: string where \<comment> \<open>"the bot died"\<close>
  "zh_bot_died =
     [CHR 0xE6, CHR 0x9C, CHR 0xBA, CHR 0xE5, CHR 0x99, CHR 0xA8, CHR 0xE4, CHR 0xBA, CHR 0xBA,
      CHR 0xE6, CHR 0xAD, CHR 0xBB, CHR 0xE4, CHR 0xBA, CHR 0xA1]"

definition zh_bot_respawned :: string where \<comment> \<open>"the bot respawned"\<close>
  "zh_bot_respawned =
     [CHR 0xE6, CHR 0x9C, CHR 0xBA, CHR 0xE5, CHR 0x99, CHR 0xA8, CHR 0xE4, CHR 0xBA, CHR 0xBA,
      CHR 0xE9, CHR 0x87, CHR 0x8D, CHR 0xE7, CHR 0x94, CHR 0x9F]"

definition zh_bot_moved :: string where \<comment> \<open>"the bot moved"\<close>
  "zh_bot_moved =
     [CHR 0xE6, CHR 0x9C, CHR 0xBA, CHR 0xE5, CHR 0x99, CHR 0xA8, CHR 0xE4, CHR 0xBA, CHR 0xBA,
      CHR 0xE7, CHR 0xA7, CHR 0xBB, CHR 0xE5, CHR 0x8A, CHR 0xA8]"

definition zh_bot_jumped :: string where \<comment> \<open>"the bot jumped"\<close>
  "zh_bot_jumped =
     [CHR 0xE6, CHR 0x9C, CHR 0xBA, CHR 0xE5, CHR 0x99, CHR 0xA8, CHR 0xE4, CHR 0xBA, CHR 0xBA,
      CHR 0xE8, CHR 0xB7, CHR 0xB3, CHR 0xE8, CHR 0xB7, CHR 0x83]"

definition zh_bot_error :: string where \<comment> \<open>"bot error ["\<close>
  "zh_bot_error =
     [CHR 0xE6, CHR 0x9C, CHR 0xBA, CHR 0xE5, CHR 0x99, CHR 0xA8, CHR 0xE4, CHR 0xBA, CHR 0xBA,
      CHR 0xE9, CHR 0x94, CHR 0x99, CHR 0xE8, CHR 0xAF, CHR 0xAF] @ '' [''"

subsection \<open>State\<close>

text \<open>
  The methods that attach handlers are private and \<open>registerAllEvents\<close>, which is
  to be called once on a registry, calls each of them once: a registry has at most one
  handler on a signal, so the attached handlers are a list of signal names, each with
  the flag of \<open>once\<close>, and the two variables of the closure of the \<open>move\<close>
  handler are part of the state.
\<close>

record BotEventRegistry =
  attached :: "((emitter \<times> string) \<times> bool) list"
  lastMoveTime :: int
  lastPosition :: "Vec3 option"

definition newBotEventRegistry :: BotEventRegistry where
  "newBotEventRegistry = \<lparr>attached = [], lastMoveTime = 0, lastPosition = None\<rparr>"

definition bot_on :: "emitter \<times> string \<Rightarrow> BotEventRegistry \<Rightarrow> BotEventRegistry" where
  "bot_on name reg = reg\<lparr>attached := attached reg @ [(name, False)]\<rparr>"

definition bot_once :: "emitter \<times> string \<Rightarrow> BotEventRegistry \<Rightarrow> BotEventRegistry" where
  "bot_once name reg = reg\<lparr>attached := attached reg @ [(name, True)]\<rparr>"

subsection \<open>Building payloads\<close>

definition math_floor :: "real \<Rightarrow> real" where
  "math_floor v = of_int \<lfloor>v\<rfloor>"

text \<open>\<open>{ x: Math.floor(p.x), y: Math.floor(p.y), z: Math.floor(p.z) }\<close>\<close>

definition flooredPosition :: "Vec3 \<Rightarrow> jsval" where
  "flooredPosition p =
     JObj [(''x'', JNum (math_floor (vx p))), (''y'', JNum (math_floor (vy p))),
           (''z'', JNum (math_floor (vz p)))]"

text \<open>\<open>{ x: p.x, y: p.y, z: p.z }\<close>\<close>

definition copiedPosition :: "Vec3 \<Rightarrow> jsval" where
  "copiedPosition p = JObj [(''x'', JNum (vx p)), (''y'', JNum (vy p)), (''z'', JNum (vz p))]"

text \<open>\<open>p ? { x: Math.floor(p.x), ... } : undefined\<close>\<close>

definition flooredOrUndefined :: "Vec3 option \<Rightarrow> jsval" where
  "flooredOrUndefined p = (case p of None \<Rightarrow> JUndefined | Some q \<Rightarrow> flooredPosition q)"

definition botPosition :: "Bot \<Rightarrow> Vec3 option" where
  "botPosition bt = (case entity bt of None \<Rightarrow> None | Some e \<Rightarrow> entityPosition e)"

definition strOrUndefined :: "string option \<Rightarrow> jsval" where
  "strOrUndefined s = (case s of None \<Rightarrow> JUndefined | Some t \<Rightarrow> JStr t)"

definition numOrUndefined :: "real option \<Rightarrow> jsval" where
  "numOrUndefined v = (case v of None \<Rightarrow> JUndefined | Some w \<Rightarrow> JNum w)"

text \<open>\<open>entity.name || entity.type\<close>\<close>

definition nameOrType :: "Entity \<Rightarrow> string" where
  "nameOrType e =
     (case entityName e of None \<Rightarrow> entityType e
      | Some n \<Rightarrow> if n = [] then entityType e else n)"

text \<open>\<open>(this.bot as any).maxHealth || 20\<close>\<close>

definition maxHealthOr20 :: "Bot \<Rightarrow> real" where
  "maxHealthOr20 bt =
     (case maxHealth bt of None \<Rightarrow> 20 | Some m \<Rightarrow> if m = 0 then 20 else m)"

definition itemSummary :: "Item option \<Rightarrow> jsval" where
  "itemSummary i =
     (case i of None \<Rightarrow> JNull
      | Some j \<Rightarrow> JObj [(''name'', JStr (itemName j)), (''count'', JNum (itemCount j))])"

definition formatError :: "runtime \<Rightarrow> reason \<Rightarrow> jsval" where
  "formatError rt why =
     (case why of
        AnError err \<Rightarrow> JStr (errorMessage err)
      | AValue v \<Rightarrow> (case jsonStringify rt v of Some s \<Rightarrow> s | None \<Rightarrow> JStr (toString rt v)))"

text \<open>The string a template literal makes of the result of \<open>formatError\<close>.\<close>

definition shown :: "runtime \<Rightarrow> jsval \<Rightarrow> string" where
  "shown rt v = (case v of JStr s \<Rightarrow> s | _ \<Rightarrow> toString rt v)"

subsection \<open>The handlers\<close>

text \<open>
  The body of the handler of each signal: the new state of the registry and the calls
  of \<open>createAndEmit\<close> it makes. The clock is read twice: \<open>now\<close> is the reading
  of \<open>Date.now()\<close> in the \<open>move\<close> handler, the only handler that reads the
  clock, and \<open>stamp\<close> is the later reading of \<open>Date.now()\<close> in
  \<open>createAndEmit\<close>, which becomes the timestamp of the event.
\<close>

fun handler ::
  "runtime \<Rightarrow> Bot \<Rightarrow> int \<Rightarrow> int \<Rightarrow> signal \<Rightarrow> BotEventRegistry \<Rightarrow> BotEventRegistry \<times> call list" where
  "handler rt bt now stamp SigSpawn reg =
     (reg, [CreateAndEmit stamp ''spawn'' SUCCESS zh_bot_spawned
              (Some [(''position'', flooredOrUndefined (botPosition bt)),
                     (''username'', JStr (username bt))])])"
| "handler rt bt now stamp SigLogin reg =
     (reg, [CreateAndEmit stamp ''login'' INFO zh_bot_logged_in
              (Some [(''username'', JStr (username bt))])])"
| "handler rt bt now stamp (SigKicked why) reg =
     (reg, [CreateAndEmit stamp ''kicked'' ERROR (zh_bot_kicked @ shown rt (formatError rt why))
              (Some [(''reason'', formatError rt why), (''username'', JStr (username bt))])])"
| "handler rt bt now stamp (SigEnd why) reg =
     (reg, [CreateAndEmit stamp ''end'' WARNING (zh_bot_disconnected @ shown rt (formatError rt why))
              (Some [(''reason'', formatError rt why)])])"
| "handler rt bt now stamp (SigChat user message) reg =
     (if user = username bt then (reg, [])
      else (reg, [CreateAndEmit stamp ''chat'' INFO (user @ '': '' @ message)
                    (Some [(''username'', JStr user), (''message'', JStr message),
                           (''isBot'', JBool False)])]))"
| "handler rt bt now stamp (SigWhisper user message) reg =
     (reg, [CreateAndEmit stamp ''chat'' INFO (zh_whisper @ user @ '': '' @ message)
              (Some [(''username'', JStr user), (''message'', JStr message),
                     (''isBot'', JBool False), (''isWhisper'', JBool True)])])"
| "handler rt bt now stamp (SigEntityHurt e) reg =
     (reg, [CreateAndEmit stamp ''entity_hurt'' INFO (zh_entity @ nameOrType e @ zh_was_hurt)
              (Some [(''entityId'', JNum (entityId e)), (''entityType'', JStr (entityType e)),
                     (''entityName'', strOrUndefined (entityName e)),
                     (''position'', flooredOrUndefined (entityPosition e)),
                     (''health'', numOrUndefined (entityHealth e))])])"
| "handler rt bt now stamp (SigEntityDead e) reg =
     (reg, [CreateAndEmit stamp ''entity_death'' INFO (zh_entity @ nameOrType e @ zh_died)
              (Some [(''entityId'', JNum (entityId e)), (''entityType'', JStr (entityType e)),
                     (''entityName'', strOrUndefined (entityName e)),
                     (''position'', flooredOrUndefined (entityPosition e))])])"
| "handler rt bt now stamp (SigEntitySpawn e) reg =
     (reg, [CreateAndEmit stamp ''entity_spawn'' INFO (zh_entity @ nameOrType e @ zh_spawned)
              (Some [(''entityId'', JNum (entityId e)), (''entityType'', JStr (entityType e)),
                     (''entityName'', strOrUndefined (entityName e)),
                     (''position'', flooredOrUndefined (entityPosition e))])])"
| "handler rt bt now stamp (SigEntityGone e) reg =
     (reg, [CreateAndEmit stamp ''entity_gone'' INFO (zh_entity @ nameOrType e @ zh_gone)
              (Some [(''entityId'', JNum (entityId e)), (''entityType'', JStr (entityType e)),
                     (''entityName'', strOrUndefined (entityName e))])])"
| "handler rt bt now stamp (SigBlockUpdate oldBlock newBlock) reg =
     (case oldBlock of
        None \<Rightarrow> (reg, [])
      | Some old \<Rightarrow>
          if blockType old \<noteq> blockType newBlock
          then (reg, [CreateAndEmit stamp ''block_update'' INFO
                        (zh_block_update @ blockName old @ '' -> '' @ blockName newBlock)
                        (Some [(''position'', copiedPosition (blockPosition newBlock)),
                               (''blockType'', JNum (blockType newBlock)),
                               (''blockName'', JStr (blockName newBlock)),
                               (''oldBlockType'', JNum (blockType old))])])
          else (reg, []))"
| "handler rt bt now stamp (SigBlockBreakProgressObserved block destroyStage) reg =
     (if destroyStage = 9
      then (reg, [CreateAndEmit stamp ''block_break'' INFO (zh_block_broken @ blockName block)
                    (Some [(''position'', copiedPosition (blockPosition block)),
                           (''blockType'', JNum (blockType block)),
                           (''blockName'', JStr (blockName block))])])
      else (reg, []))"
| "handler rt bt now stamp (SigItemDrop e) reg =
     (reg, [CreateAndEmit stamp ''item_drop'' INFO
              (zh_item_dropped @ shown rt (strOrUndefined (entityName e)))
              (Some [(''itemName'', strOrUndefined (entityName e)),
                     (''position'', flooredOrUndefined (entityPosition e))])])"
| "handler rt bt now stamp (SigItemCollect isBot item) reg =
     (reg, [CreateAndEmit stamp ''item_collect'' INFO
              ((if isBot then zh_the_bot else zh_an_entity) @ zh_collected @ itemName item)
              (Some [(''itemName'', JStr (itemName item)), (''itemType'', JNum (itemType item)),
                     (''isBot'', JBool isBot)])])"
| "handler rt bt now stamp (SigUpdateSlot slotNo oldItem newItem) reg =
     (if map_option itemName oldItem \<noteq> map_option itemName newItem
         \<or> map_option itemCount oldItem \<noteq> map_option itemCount newItem
      then (reg, [CreateAndEmit stamp ''inventory_update'' INFO
                    (zh_inventory_update @ toString rt (JNum slotNo))
                    (Some [(''slot'', JNum slotNo), (''oldItem'', itemSummary oldItem),
                           (''newItem'', itemSummary newItem)])])
      else (reg, []))"
| "handler rt bt now stamp SigHealth reg =
     (reg, [CreateAndEmit stamp ''health_change'' INFO
              (zh_health_change @ toString rt (JNum (health bt)) @ ''/''
                 @ toString rt (JNum (maxHealthOr20 bt)))
              (Some [(''health'', JNum (health bt)), (''maxHealth'', JNum (maxHealthOr20 bt))])])"
| "handler rt bt now stamp SigHurt reg =
     (reg, [CreateAndEmit stamp ''damage'' WARNING
              (zh_bot_hurt @ toString rt (JNum (health bt)) @ ''/''
                 @ toString rt (JNum (maxHealthOr20 bt)))
              (Some [(''health'', JNum (health bt)), (''maxHealth'', JNum (maxHealthOr20 bt))])])"
| "handler rt bt now stamp SigDeath reg =
     (reg, [CreateAndEmit stamp ''death'' ERROR zh_bot_died
              (Some [(''position'', flooredOrUndefined (botPosition bt))])])"
| "handler rt bt now stamp SigRespawn reg =
     (reg, [CreateAndEmit stamp ''respawn'' SUCCESS zh_bot_respawned
              (Some [(''position'', flooredOrUndefined (botPosition bt))])])"
| "handler rt bt now stamp SigMove reg =
     (if now - lastMoveTime reg < 500 then (reg, [])
      else
        (let reg1 = reg\<lparr>lastMoveTime := now\<rparr>
         in case botPosition bt of
              None \<Rightarrow> (reg1, [])
            | Some currentPos \<Rightarrow>
                (reg1\<lparr>lastPosition := Some currentPos\<rparr>,
                 [CreateAndEmit stamp ''move'' INFO zh_bot_moved
                    (Some [(''position'', flooredPosition currentPos),
                           (''onGround'',
                            (case entity bt of None \<Rightarrow> JUndefined
                             | Some e \<Rightarrow> JBool (onGround e)))])])))"
| "handler rt bt now stamp SigJump reg =
     (reg, [CreateAndEmit stamp ''jump'' INFO zh_bot_jumped
              (Some [(''position'', flooredOrUndefined (botPosition bt))])])"
| "handler rt bt now stamp (SigError err) reg =
     (let errorCode' = (case errorCode err of
                          None \<Rightarrow> ''Unknown error''
                        | Some c \<Rightarrow> if c = [] then ''Unknown error'' else c)
      in (reg, [CreateAndEmit stamp ''error'' ERROR
                  (zh_bot_error @ errorCode' @ '']: '' @ errorMessage err)
                  (Some [(''error'', JStr (errorMessage err)), (''code'', JStr errorCode'),
                         (''stack'', strOrUndefined (errorStack err))])]))"

subsection \<open>Registration and dispatch\<close>

definition registerConnectionEvents :: "BotEventRegistry \<Rightarrow> BotEventRegistry" where
  "registerConnectionEvents =
     bot_on (OfBot, ''end'') \<circ> bot_on (OfBot, ''kicked'') \<circ> bot_on (OfBot, ''login'')
       \<circ> bot_once (OfBot, ''spawn'')"

definition registerChatEvents :: "BotEventRegistry \<Rightarrow> BotEventRegistry" where
  "registerChatEvents = bot_on (OfBot, ''whisper'') \<circ> bot_on (OfBot, ''chat'')"

definition registerEntityEvents :: "BotEventRegistry \<Rightarrow> BotEventRegistry" where
  "registerEntityEvents =
     bot_on (OfBot, ''entityGone'') \<circ> bot_on (OfBot, ''entitySpawn'')
       \<circ> bot_on (OfBot, ''entityDead'') \<circ> bot_on (OfBot, ''entityHurt'')"

definition registerBlockEvents :: "BotEventRegistry \<Rightarrow> BotEventRegistry" where
  "registerBlockEvents =
     bot_on (OfBot, ''blockBreakProgressObserved'') \<circ> bot_on (OfBot, ''blockUpdate'')"

definition registerItemEvents :: "BotEventRegistry \<Rightarrow> BotEventRegistry" where
  "registerItemEvents =
     bot_on (OfInventory, ''updateSlot'') \<circ> bot_on (OfBot, ''itemCollect'')
       \<circ> bot_on (OfBot, ''itemDrop'')"

definition registerDamageEvents :: "BotEventRegistry \<Rightarrow> BotEventRegistry" where
  "registerDamageEvents = bot_on (OfBot, ''hurt'') \<circ> bot_on (OfBot, ''health'')"

definition registerDeathEvents :: "BotEventRegistry \<Rightarrow> BotEventRegistry" where
  "registerDeathEvents = bot_on (OfBot, ''respawn'') \<circ> bot_on (OfBot, ''death'')"

definition registerMovementEvents :: "BotEventRegistry \<Rightarrow> BotEventRegistry" where
  "registerMovementEvents reg =
     bot_on (OfBot, ''jump'')
       (bot_on (OfBot, ''move'') (reg\<lparr>lastPosition := None, lastMoveTime := 0\<rparr>))"

definition registerErrorEvents :: "BotEventRegistry \<Rightarrow> BotEventRegistry" where
  "registerErrorEvents = bot_on (OfBot, ''error'')"

definition registerAllEvents :: "BotEventRegistry \<Rightarrow> BotEventRegistry" where
  "registerAllEvents =
     registerErrorEvents \<circ> registerMovementEvents \<circ> registerDeathEvents
       \<circ> registerDamageEvents \<circ> registerItemEvents \<circ> registerBlockEvents
       \<circ> registerEntityEvents \<circ> registerChatEvents \<circ> registerConnectionEvents"

text \<open>
  The bot raises a signal, on a registry with at most one handler on each signal
  name: the handler attached to the name runs, and a handler attached with
  \<open>once\<close> is detached before it runs. A signal with no handler attached does
  nothing.
\<close>

definition raise ::
  "runtime \<Rightarrow> Bot \<Rightarrow> int \<Rightarrow> int \<Rightarrow> signal \<Rightarrow> BotEventRegistry \<Rightarrow> BotEventRegistry \<times> call list" where
  "raise rt bt now stamp sig reg =
     (case map_of (attached reg) (signalName sig) of
        None \<Rightarrow> (reg, [])
      | Some once \<Rightarrow>
          handler rt bt now stamp sig
            (if once then reg\<lparr>attached := filter (\<lambda>a. fst a \<noteq> signalName sig) (attached reg)\<rparr>
             else reg))"

text \<open>
  A session: the signals in the order raised, each with the bot as it is and the two
  clock readings of its handler; the result is every call of \<open>createAndEmit\<close>, in
  order.
\<close>

type_synonym occurrence = "Bot \<times> int \<times> int \<times> signal"

fun session :: "runtime \<Rightarrow> occurrence list \<Rightarrow> BotEventRegistry \<Rightarrow> BotEventRegistry \<times> call list" where
  "session rt [] reg = (reg, [])"
| "session rt ((bt, now, stamp, sig) # rest) reg =
     (let (reg1, out1) = raise rt bt now stamp sig reg;
          (reg2, out2) = session rt rest reg1
      in (reg2, out1 @ out2))"

section \<open>Observing the adapter\<close>

text \<open>The event a call of the manager emits, if any, as \<open>createAndEmit\<close> builds it.\<close>

fun eventOf :: "call \<Rightarrow> MinecraftEvent option" where
  "eventOf (Emit event) = Some event"
| "eventOf (CreateAndEmit now ty sev descr dat) =
     Some \<lparr>type = ty, timestamp = now, severity = sev, description = descr, data = dat\<rparr>"
| "eventOf c = None"

definition emittedEvents :: "call list \<Rightarrow> MinecraftEvent list" where
  "emittedEvents cs = List.map_filter eventOf cs"

definition ofType :: "string \<Rightarrow> MinecraftEvent list \<Rightarrow> MinecraftEvent list" where
  "ofType ty es = filter (\<lambda>e. type e = ty) es"

text \<open>The occurrences of a signal in a session.\<close>

definition raised :: "emitter \<times> string \<Rightarrow> occurrence list \<Rightarrow> occurrence list" where
  "raised name occ = filter (\<lambda>(bt, now, stamp, sig). signalName sig = name) occ"

text \<open>
  The \<open>move\<close> signals of a session that were emitted, each by the reading of the
  clock that its handler took when the signal arrived.
\<close>

fun emittedMoves :: "runtime \<Rightarrow> occurrence list \<Rightarrow> BotEventRegistry \<Rightarrow> int list" where
  "emittedMoves rt [] reg = []"
| "emittedMoves rt ((bt, now, stamp, sig) # rest) reg =
     (let (reg1, out1) = raise rt bt now stamp sig reg
      in (if sig = SigMove \<and> out1 \<noteq> [] then [now] else []) @ emittedMoves rt rest reg1)"

text \<open>
  The call of \<open>createAndEmit\<close> in the \<open>move\<close> handler, for a bot at the
  position \<open>currentPos\<close>.
\<close>

definition moveEvent :: "Bot \<Rightarrow> Vec3 \<Rightarrow> int \<Rightarrow> call" where
  "moveEvent bt currentPos stamp =
     CreateAndEmit stamp ''move'' INFO zh_bot_moved
       (Some [(''position'', flooredPosition currentPos),
              (''onGround'', (case entity bt of None \<Rightarrow> JUndefined | Some e \<Rightarrow> JBool (onGround e)))])"

text \<open>The values of a payload field over the events emitted, when the field is there.\<close>

definition payload :: "string \<Rightarrow> call list \<Rightarrow> jsval list" where
  "payload k cs =
     concat (map (\<lambda>e. case data e of
                         None \<Rightarrow> []
                       | Some d \<Rightarrow> (case map_of d k of None \<Rightarrow> [] | Some v \<Rightarrow> [v]))
                 (emittedEvents cs))"

text \<open>
  The handlers attached by \<open>registerAllEvents\<close> besides the one of \<open>spawn\<close>, and
  the registries of a running adapter: before and after the first \<open>spawn\<close>.
\<close>

definition allAttached :: "((emitter \<times> string) \<times> bool) list" where
  "allAttached =
     [((OfBot, ''login''), False), ((OfBot, ''kicked''), False),
      ((OfBot, ''end''), False), ((OfBot, ''chat''), False), ((OfBot, ''whisper''), False),
      ((OfBot, ''entityHurt''), False), ((OfBot, ''entityDead''), False),
      ((OfBot, ''entitySpawn''), False), ((OfBot, ''entityGone''), False),
      ((OfBot, ''blockUpdate''), False), ((OfBot, ''blockBreakProgressObserved''), False),
      ((OfBot, ''itemDrop''), False), ((OfBot, ''itemCollect''), False),
      ((OfInventory, ''updateSlot''), False), ((OfBot, ''health''), False),
      ((OfBot, ''hurt''), False), ((OfBot, ''death''), False), ((OfBot, ''respawn''), False),
      ((OfBot, ''move''), False), ((OfBot, ''jump''), False), ((OfBot, ''error''), False)]"

definition registered :: "BotEventRegistry \<Rightarrow> bool" where
  "registered reg =
     (attached reg = ((OfBot, ''spawn''), True) # allAttached \<or> attached reg = allAttached)"

subsection \<open>Sample values\<close>

definition sampleRuntime :: runtime where
  "sampleRuntime =
     \<lparr>toString = (\<lambda>v. case v of JStr t \<Rightarrow> t | _ \<Rightarrow> ''?''),
      jsonStringify = (\<lambda>v. Some (JStr ''?'')),
      toLocaleTimeString = (\<lambda>t. ''12:00:00'')\<rparr>"

definition sampleBot :: Bot where
  "sampleBot =
     \<lparr>username = ''Rackster'',
      entity = Some \<lparr>entityId = 7, entityType = ''player'', entityName = Some ''Rackster'',
                     entityPosition = Some (Vec3 (3/2) 64 (-5/2)), entityHealth = None,
                     onGround = True\<rparr>,
      health = 39/2, maxHealth = None\<rparr>"

definition sampleSession :: "occurrence list" where
  "sampleSession =
     [(sampleBot, 1700000000000, 1700000000000, SigSpawn),
      (sampleBot, 1700000000001, 1700000000001, SigLogin),
      (sampleBot, 1700000000002, 1700000000002, SigSpawn),
      (sampleBot, 1700000000003, 1700000000003, SigEnd (AValue (JStr ''socketClosed''))),
      (sampleBot, 1700000000004, 1700000000004, SigLogin),
      (sampleBot, 1700000000005, 1700000000005, SigSpawn)]"

definition chatEvent :: MinecraftEvent where
  "chatEvent =
     \<lparr>type = ''chat'', timestamp = 1700000000000, severity = INFO, description = ''Steve: hello'',
      data = Some [(''username'', JStr ''Steve''), (''message'', JStr ''hello''), (''isBot'', JBool False)]\<rparr>"

definition deathEvent :: MinecraftEvent where
  "deathEvent =
     \<lparr>type = ''death'', timestamp = 1700000000000, severity = ERROR, description = ''bot died'',
      data = Some [(''position'', JObj [(''x'', JNum 1), (''y'', JNum 2), (''z'', JNum 3)])]\<rparr>"

section \<open>History buffer\<close>

lemmas run_defs =
  emit_def createAndEmit_def typeFanOut_def newRun_def newEventManager_def acceptAll_def quiet_def
  sampleEvent_def addToHistory_def setMaxHistorySize_def theSet_def idle_def

lemma js_slice_last:
  "0 < k \<Longrightarrow> js_slice (- k) xs = drop (length xs - nat k) xs"
  by (auto simp: js_slice_def Let_def max_def nat_diff_distrib'
           intro: arg_cong [where f = "\<lambda>k. drop k xs"])

lemma addToHistory_length:
  "length (eventHistory (addToHistory e h)) =
     (if int (length (eventHistory h)) < maxHistorySize h then Suc (length (eventHistory h))
      else length (eventHistory h))"
  by (auto simp: addToHistory_def Let_def)

text \<open>An insertion keeps the buffer within a capacity it was already within.\<close>

lemma addToHistory_bound:
  "int (length (eventHistory h)) \<le> maxHistorySize h \<Longrightarrow>
   int (length (eventHistory (addToHistory e h))) \<le> maxHistorySize h"
  by (auto simp: addToHistory_length)

text \<open>At capacity, an insertion drops the oldest entry and appends the new one.\<close>

lemma addToHistory_evicts_oldest:
  "int (length (eventHistory h)) = maxHistorySize h \<Longrightarrow> eventHistory h = old # rest \<Longrightarrow>
   eventHistory (addToHistory e h) = rest @ [e]"
  by (auto simp: addToHistory_def Let_def)

text \<open>
  C1. The claim: the history never holds more than \<open>N\<close> entries, also right after
  \<open>setMaxHistorySize\<close> lowered \<open>N\<close>. The code: three events are emitted into a new
  manager, then \<open>setMaxHistorySize(2)\<close>: the buffer holds three entries under a
  capacity of two, and still three after one more emission, since \<open>setMaxHistorySize\<close>
  only stores the number and \<open>addToHistory\<close> removes one entry per insertion.
\<close>

theorem history_exceeds_capacity_after_shrinking:
  "map_option (map_sum id (\<lambda>r. (length (eventHistory (hub r)), maxHistorySize (hub r))))
     (performAll acceptAll quiet idle 1
        [Emit (sampleEvent ''a'' 1), Emit (sampleEvent ''b'' 2), Emit (sampleEvent ''c'' 3),
         SetMaxHistorySize 2] newRun)
   = Some (Inr (3, 2))
   \<and> map_option (map_sum id (\<lambda>r. (length (eventHistory (hub r)), maxHistorySize (hub r))))
     (performAll acceptAll quiet idle 1
        [Emit (sampleEvent ''a'' 1), Emit (sampleEvent ''b'' 2), Emit (sampleEvent ''c'' 3),
         SetMaxHistorySize 2, Emit (sampleEvent ''d'' 4)] newRun)
   = Some (Inr (3, 2))"
  by (simp add: run_defs)

subsection \<open>Queries\<close>

text \<open>For a positive limit the answer is the last \<open>limit\<close> matching entries, in buffer order.\<close>

lemma getHistory_positive_limit:
  assumes "0 < k"
  shows "getHistory (Some (t # ts)) (Some k) h =
           drop (length (filter (\<lambda>e. type e = t # ts) (eventHistory h)) - nat k)
             (filter (\<lambda>e. type e = t # ts) (eventHistory h))"
    and "getHistory None (Some k) h = drop (length (eventHistory h) - nat k) (eventHistory h)"
  using assms by (simp_all add: getHistory_def js_slice_last)

lemma getHistory_length_positive_limit:
  "0 < k \<Longrightarrow> int (length (getHistory ty (Some k) h)) \<le> k"
  by (auto simp: getHistory_def js_slice_last split: option.splits)

text \<open>
  C8. The claim: \<open>getHistory\<close> returns at most \<open>limit\<close> entries. The code at
  \<open>limit = 0\<close>: \<open>slice(-0)\<close> is \<open>slice(0)\<close>, the whole array, so all three
  entries of the buffer come back.
\<close>

theorem getHistory_limit_zero_returns_everything:
  "map_option (map_sum id (\<lambda>r. getHistory None (Some 0) (hub r)))
     (performAll acceptAll quiet idle 1
        [Emit (sampleEvent ''a'' 1), Emit (sampleEvent ''b'' 2), Emit (sampleEvent ''c'' 3)] newRun)
   = Some (Inr [sampleEvent ''a'' 1, sampleEvent ''b'' 2, sampleEvent ''c'' 3])"
  by (simp add: run_defs getHistory_def js_slice_def)

subsection \<open>What a loop of \<open>emit\<close> does to a run\<close>

lemma thrownBy_append [simp]: "thrownBy lt (a @ b) = thrownBy lt a @ thrownBy lt b"
  by (simp add: thrownBy_def map_filter_def)

lemma thrownBy_Nil [simp]: "thrownBy lt [] = []"
  by (simp add: thrownBy_def map_filter_def)

lemma thrownBy_single:
  "thrownBy lt [(sl, l, event)] = (case throws (lt l event) of None \<Rightarrow> [] | Some err \<Rightarrow> [(sl, err)])"
  by (simp add: thrownBy_def map_filter_def split: option.splits)

lemma suspended_simps [simp]:
  "invoked (suspended env r) = invoked r" "console (suspended env r) = console r"
  "hub (suspended env r) = foldl applyCall (hub r) (env (length (invoked r)))"
  by (simp_all add: suspended_def)

lemma afterCall_simps [simp]:
  "invoked (afterCall lt env sl l event r) = invoked r @ [(sl, l, event)]"
  "console (afterCall lt env sl l event r) = console r @ thrownBy lt [(sl, l, event)]"
  "hub (afterCall lt env sl l event r) =
     foldl applyCall (foldl applyCall (hub r) (calls (lt l event))) (env (Suc (length (invoked r))))"
  by (simp_all add: afterCall_def)

lemma fanOut_Suc:
  "fanOut lt env (Suc n) sl ref i event r =
     (if length (theSet ref (hub r)) \<le> i then Some r
      else (case theSet ref (hub r) ! i of
              None \<Rightarrow> fanOut lt env n sl ref (Suc i) event r
            | Some l \<Rightarrow> fanOut lt env n sl ref (Suc i) event (afterCall lt env sl l event r)))"
  by (cases "throws (lt (the (theSet ref (hub r) ! i)) event)")
     (auto simp: afterCall_def callListener_def thrownBy_single Let_def split: option.splits)

declare fanOut.simps(2) [simp del]

lemma fanOut_log:
  "fanOut lt env n sl ref i event r = Some r' \<Longrightarrow>
   \<exists>new. invoked r' = invoked r @ new \<and> console r' = console r @ thrownBy lt new
         \<and> (\<forall>x \<in> set new. fst x = sl \<and> snd (snd x) = event)"
proof (induction n arbitrary: i r)
  case 0
  then show ?case by simp
next
  case (Suc n)
  let ?s = "theSet ref (hub r)"
  show ?case
  proof (cases "length ?s \<le> i")
    case True
    with Suc.prems have "r' = r" by (simp add: fanOut_Suc)
    then show ?thesis by simp
  next
    case False
    show ?thesis
    proof (cases "?s ! i")
      case None
      then show ?thesis using False Suc.prems Suc.IH by (simp add: fanOut_Suc)
    next
      case (Some l)
      then have "fanOut lt env n sl ref (Suc i) event (afterCall lt env sl l event r) = Some r'"
        using False Suc.prems by (simp add: fanOut_Suc)
      from Suc.IH [OF this] obtain new where
        n: "invoked r' = invoked r @ (sl, l, event) # new"
           "console r' = console r @ thrownBy lt [(sl, l, event)] @ thrownBy lt new"
           "\<forall>x \<in> set new. fst x = sl \<and> snd (snd x) = event" by auto
      have "console r' = console r @ thrownBy lt ((sl, l, event) # new)"
        using n(2) thrownBy_append [of lt "[(sl, l, event)]" new] by (simp del: thrownBy_append)
      with n(1,3) show ?thesis by (intro exI [of _ "(sl, l, event) # new"]) simp
    qed
  qed
qed

text \<open>
  A property of the manager that the calls satisfying \<open>Q\<close> preserve holds after a
  loop in which every call made, by the listeners called and by the interference,
  satisfies \<open>Q\<close>.
\<close>

lemma foldl_applyCall_invariant:
  assumes "\<And>h c. Q c \<Longrightarrow> P h \<Longrightarrow> P (applyCall h c)"
  shows "\<forall>c \<in> set cs. Q c \<Longrightarrow> P h \<Longrightarrow> P (foldl applyCall h cs)"
  by (induction cs arbitrary: h) (simp_all add: assms)

lemma afterCall_invariant:
  assumes step: "\<And>h c. Q c \<Longrightarrow> P h \<Longrightarrow> P (applyCall h c)"
    and "\<forall>c \<in> set (calls (lt l event)). Q c" "\<forall>c \<in> set (env (Suc (length (invoked r)))). Q c" "P (hub r)"
  shows "P (hub (afterCall lt env sl l event r))"
  using assms(2-4) foldl_applyCall_invariant [of Q P, OF step] by simp

lemma fanOut_invariant:
  assumes step: "\<And>h c. Q c \<Longrightarrow> P h \<Longrightarrow> P (applyCall h c)"
  shows "fanOut lt env n sl ref i event r = Some r' \<Longrightarrow> P (hub r) \<Longrightarrow>
     \<forall>(sl', l, e) \<in> set (drop (length (invoked r)) (invoked r')). \<forall>c \<in> set (calls (lt l e)). Q c \<Longrightarrow>
     \<forall>k. length (invoked r) < k \<and> k \<le> length (invoked r') \<longrightarrow> (\<forall>c \<in> set (env k). Q c) \<Longrightarrow>
     P (hub r')"
proof (induction n arbitrary: i r)
  case 0
  then show ?case by simp
next
  case (Suc n)
  let ?s = "theSet ref (hub r)"
  show ?case
  proof (cases "length ?s \<le> i")
    case True
    with Suc.prems show ?thesis by (simp add: fanOut_Suc)
  next
    case False
    show ?thesis
    proof (cases "?s ! i")
      case None
      then show ?thesis using False Suc.prems Suc.IH by (simp add: fanOut_Suc)
    next
      case (Some l)
      let ?r1 = "afterCall lt env sl l event r"
      have run: "fanOut lt env n sl ref (Suc i) event ?r1 = Some r'"
        using Some False Suc.prems by (simp add: fanOut_Suc)
      from fanOut_log [OF run] obtain new where new: "invoked r' = invoked r @ (sl, l, event) # new"
        by auto
      have a: "\<forall>c \<in> set (calls (lt l event)). Q c"
        using Suc.prems(3) new by simp
      have b: "\<forall>c \<in> set (env (Suc (length (invoked r)))). Q c"
        using Suc.prems(4) [rule_format, of "Suc (length (invoked r))"] new by simp
      have p: "P (hub ?r1)"
        by (rule afterCall_invariant [where Q = Q and P = P and lt = lt and env = env])
           (use step a b Suc.prems(2) in auto)
      have c: "\<forall>(sl', l, e) \<in> set (drop (length (invoked ?r1)) (invoked r')). \<forall>c \<in> set (calls (lt l e)). Q c"
        using Suc.prems(3) new by simp
      have d: "\<forall>k. length (invoked ?r1) < k \<and> k \<le> length (invoked r') \<longrightarrow> (\<forall>c \<in> set (env k). Q c)"
      proof (intro allI impI)
        fix k assume "length (invoked ?r1) < k \<and> k \<le> length (invoked r')"
        then have "length (invoked r) < k \<and> k \<le> length (invoked r')" by simp
        with Suc.prems(4) show "\<forall>c \<in> set (env k). Q c" by blast
      qed
      from Suc.IH [OF run p c d] show ?thesis .
    qed
  qed
qed

lemma emit_accepted:
  assumes "emit ft lt env n event r = Some (Inr r')"
    and "snd (runFilters ft (set_values (filters (hub r))) event) = Inr True"
  obtains r2 where
    "typeFanOut lt env n event (r\<lparr>hub := addToHistory event (hub r)\<rparr>) = Some r2"
    "fanOut lt env n Wildcard GlobalSet 0 event r2 = Some r'"
  using assms by (auto simp: emit_def split: option.splits)

lemma emit_not_accepted:
  assumes "emit ft lt env n event r = Some (Inr r')"
    and "snd (runFilters ft (set_values (filters (hub r))) event) \<noteq> Inr True"
  shows "r' = r"
  using assms by (auto simp: emit_def split: sum.splits bool.splits)

lemma typeFanOut_log:
  "typeFanOut lt env n event r = Some r' \<Longrightarrow>
   \<exists>new. invoked r' = invoked r @ new \<and> console r' = console r @ thrownBy lt new
         \<and> (\<forall>x \<in> set new. fst x = Kind (type event) \<and> snd (snd x) = event)"
  by (cases "listeners (hub r) (type event)") (auto simp: typeFanOut_def dest: fanOut_log)

lemma typeFanOut_invariant:
  assumes step: "\<And>h c. Q c \<Longrightarrow> P h \<Longrightarrow> P (applyCall h c)"
    and run: "typeFanOut lt env n event r = Some r'" "P (hub r)"
    and calls: "\<forall>(sl', l, e) \<in> set (drop (length (invoked r)) (invoked r')). \<forall>c \<in> set (calls (lt l e)). Q c"
    and envc: "\<forall>k. length (invoked r) < k \<and> k \<le> length (invoked r') \<longrightarrow> (\<forall>c \<in> set (env k). Q c)"
  shows "P (hub r')"
proof (cases "listeners (hub r) (type event)")
  case None
  with run show ?thesis by (simp add: typeFanOut_def)
next
  case (Some a)
  with run have "fanOut lt env n (Kind (type event)) (TypeSet a) 0 event r = Some r'"
    by (simp add: typeFanOut_def)
  from fanOut_invariant [of Q P, OF step this run(2) calls envc] show ?thesis .
qed

lemma emit_log:
  assumes "emit ft lt env n event r = Some (Inr r')"
  shows "\<exists>new. invoked r' = invoked r @ new \<and> console r' = console r @ thrownBy lt new"
proof (cases "snd (runFilters ft (set_values (filters (hub r))) event) = Inr True")
  case False
  from emit_not_accepted [OF assms this] show ?thesis by simp
next
  case True
  from emit_accepted [OF assms True] obtain r2 where
    r2: "typeFanOut lt env n event (r\<lparr>hub := addToHistory event (hub r)\<rparr>) = Some r2"
    and r': "fanOut lt env n Wildcard GlobalSet 0 event r2 = Some r'" by blast
  from typeFanOut_log [OF r2] obtain new1 where
    n1: "invoked r2 = invoked r @ new1" "console r2 = console r @ thrownBy lt new1" by auto
  from fanOut_log [OF r'] obtain new2 where
    n2: "invoked r' = invoked r2 @ new2" "console r' = console r2 @ thrownBy lt new2" by blast
  have "invoked r' = invoked r @ (new1 @ new2) \<and> console r' = console r @ thrownBy lt (new1 @ new2)"
    using n1 n2 by simp
  then show ?thesis by blast
qed

lemma emit_invariant:
  assumes step: "\<And>h c. Q c \<Longrightarrow> P h \<Longrightarrow> P (applyCall h c)"
    and hist: "P (hub r) \<Longrightarrow> P (addToHistory event (hub r))"
    and run: "emit ft lt env n event r = Some (Inr r')" "P (hub r)"
    and calls: "\<forall>(sl', l, e) \<in> set (drop (length (invoked r)) (invoked r')). \<forall>c \<in> set (calls (lt l e)). Q c"
    and envc: "\<forall>k. length (invoked r) < k \<and> k \<le> length (invoked r') \<longrightarrow> (\<forall>c \<in> set (env k). Q c)"
  shows "P (hub r')"
proof (cases "snd (runFilters ft (set_values (filters (hub r))) event) = Inr True")
  case False
  from emit_not_accepted [OF run(1) this] run(2) show ?thesis by simp
next
  case True
  let ?r1 = "r\<lparr>hub := addToHistory event (hub r)\<rparr>"
  from emit_accepted [OF run(1) True] obtain r2 where
    r2: "typeFanOut lt env n event ?r1 = Some r2"
    and r': "fanOut lt env n Wildcard GlobalSet 0 event r2 = Some r'" by blast
  from typeFanOut_log [OF r2] obtain new1 where n1: "invoked r2 = invoked r @ new1" by auto
  from fanOut_log [OF r'] obtain new2 where n2: "invoked r' = invoked r2 @ new2" by blast
  have p1: "P (hub ?r1)" using hist run(2) by simp
  have c1: "\<forall>(sl', l, e) \<in> set (drop (length (invoked ?r1)) (invoked r2)). \<forall>c \<in> set (calls (lt l e)). Q c"
    using calls n1 n2 by auto
  have e1: "\<forall>k. length (invoked ?r1) < k \<and> k \<le> length (invoked r2) \<longrightarrow> (\<forall>c \<in> set (env k). Q c)"
  proof (intro allI impI)
    fix k assume "length (invoked ?r1) < k \<and> k \<le> length (invoked r2)"
    then have "length (invoked r) < k \<and> k \<le> length (invoked r')" using n2 by simp
    with envc show "\<forall>c \<in> set (env k). Q c" by blast
  qed
  have p2: "P (hub r2)"
    by (rule typeFanOut_invariant [where Q = Q and P = P and lt = lt and env = env, OF _ r2 p1 c1 e1])
       (use step in auto)
  have c2: "\<forall>(sl', l, e) \<in> set (drop (length (invoked r2)) (invoked r')). \<forall>c \<in> set (calls (lt l e)). Q c"
    using calls n1 n2 by auto
  have e2: "\<forall>k. length (invoked r2) < k \<and> k \<le> length (invoked r') \<longrightarrow> (\<forall>c \<in> set (env k). Q c)"
  proof (intro allI impI)
    fix k assume "length (invoked r2) < k \<and> k \<le> length (invoked r')"
    then have "length (invoked r) < k \<and> k \<le> length (invoked r')" using n1 by simp
    with envc show "\<forall>c \<in> set (env k). Q c" by blast
  qed
  show ?thesis
    by (rule fanOut_invariant [where Q = Q and P = P and lt = lt and env = env, OF _ r' p2 c2 e2])
       (use step in auto)
qed

subsection \<open>Emissions with the capacity left alone\<close>

lemma emit_no_listeners:
  "listeners (hub r) = Map.empty \<Longrightarrow> globalListeners (hub r) = [] \<Longrightarrow> filters (hub r) = [] \<Longrightarrow>
   emit ft lt env (Suc n) event r = Some (Inr (r\<lparr>hub := addToHistory event (hub r)\<rparr>))"
  by (simp add: emit_def typeFanOut_def theSet_def addToHistory_def Let_def fanOut_Suc)

lemma drop_history:
  assumes "0 \<le> C" "int (length old) \<le> C"
  shows "drop (length ((if int (length (old @ [e])) > C then tl (old @ [e]) else old @ [e]) @ events) - nat C)
              ((if int (length (old @ [e])) > C then tl (old @ [e]) else old @ [e]) @ events)
         = drop (length (old @ e # events) - nat C) (old @ e # events)"
proof (cases "int (length old) < C")
  case True
  then show ?thesis by simp
next
  case False
  then have full: "length old = nat C" using assms by simp
  then show ?thesis using False by (cases old) (simp_all add: drop_Cons')
qed

text \<open>
  On a manager without listeners and filters, whatever else runs in the program: the
  buffer holds the last \<open>maxHistorySize\<close> of all the events emitted so far.
\<close>

lemma history_after_emissions:
  assumes "listeners (hub r) = Map.empty" "globalListeners (hub r) = []" "filters (hub r) = []"
    and "0 \<le> maxHistorySize (hub r)" "int (length (eventHistory (hub r))) \<le> maxHistorySize (hub r)"
  shows "\<exists>r'. performAll ft lt env (Suc n) (map Emit events) r = Some (Inr r')
          \<and> eventHistory (hub r') =
              drop (length (eventHistory (hub r) @ events) - nat (maxHistorySize (hub r)))
                   (eventHistory (hub r) @ events)
          \<and> maxHistorySize (hub r') = maxHistorySize (hub r)"
  using assms
proof (induction events arbitrary: r)
  case Nil
  then show ?case by simp
next
  case (Cons e events)
  let ?r1 = "r\<lparr>hub := addToHistory e (hub r)\<rparr>"
  have e1: "emit ft lt env (Suc n) e r = Some (Inr ?r1)"
    using emit_no_listeners [OF Cons.prems(1-3)] .
  have s: "listeners (hub ?r1) = Map.empty" "globalListeners (hub ?r1) = []" "filters (hub ?r1) = []"
    "0 \<le> maxHistorySize (hub ?r1)" "maxHistorySize (hub ?r1) = maxHistorySize (hub r)"
    using Cons.prems by (simp_all add: addToHistory_def Let_def)
  have len: "int (length (eventHistory (hub ?r1))) \<le> maxHistorySize (hub ?r1)"
    using addToHistory_bound [OF Cons.prems(5), of e] s(5) by simp
  from Cons.IH [OF s(1-4) len] obtain r' where
    r': "performAll ft lt env (Suc n) (map Emit events) ?r1 = Some (Inr r')"
    and h: "eventHistory (hub r') =
              drop (length (eventHistory (hub ?r1) @ events) - nat (maxHistorySize (hub ?r1)))
                   (eventHistory (hub ?r1) @ events)"
    and m: "maxHistorySize (hub r') = maxHistorySize (hub ?r1)" by blast
  have "eventHistory (hub r') =
          drop (length (eventHistory (hub r) @ e # events) - nat (maxHistorySize (hub r)))
               (eventHistory (hub r) @ e # events)"
    using h drop_history [OF Cons.prems(4,5), of e events]
    by (simp add: addToHistory_def Let_def)
  then show ?case using e1 r' m s(5) by simp
qed

text \<open>
  The history bound of the specification, for a capacity set once on a new manager:
  after \<open>K\<close> emissions \<open>getHistory(limit = K)\<close> returns the last \<open>min K C\<close> of them,
  in order.
\<close>

lemma history_bound_fixed_capacity:
  assumes "0 \<le> C"
  shows "\<exists>r'. performAll ft lt env (Suc n) (SetMaxHistorySize C # map Emit events) newRun = Some (Inr r')
           \<and> getHistory None (Some (int (length events))) (hub r') = drop (length events - nat C) events
           \<and> length (getHistory None (Some (int (length events))) (hub r')) = min (length events) (nat C)"
proof -
  let ?r0 = "newRun\<lparr>hub := setMaxHistorySize C (hub newRun)\<rparr>"
  have f: "listeners (hub ?r0) = Map.empty" "globalListeners (hub ?r0) = []" "filters (hub ?r0) = []"
    "0 \<le> maxHistorySize (hub ?r0)" "int (length (eventHistory (hub ?r0))) \<le> maxHistorySize (hub ?r0)"
    and g: "eventHistory (hub ?r0) = []" "maxHistorySize (hub ?r0) = C"
    using assms by (simp_all add: newRun_def newEventManager_def setMaxHistorySize_def)
  from history_after_emissions [OF f, of ft lt env n events] obtain r' where
    r': "performAll ft lt env (Suc n) (map Emit events) ?r0 = Some (Inr r')"
    and "eventHistory (hub r') = drop (length (eventHistory (hub ?r0) @ events) - nat (maxHistorySize (hub ?r0)))
                (eventHistory (hub ?r0) @ events)" by blast
  then have h: "eventHistory (hub r') = drop (length events - nat C) events"
    using g by simp
  have q: "getHistory None (Some (int (length events))) (hub r') = drop (length events - nat C) events"
  proof (cases events)
    case Nil
    with h show ?thesis by (simp add: getHistory_def js_slice_def)
  next
    case (Cons e es)
    then have "0 < int (length events)" by simp
    then show ?thesis
      using h by (simp add: getHistory_def js_slice_last)
  qed
  show ?thesis
    using r' q by (intro exI [of _ r']) (simp add: min_def)
qed

section \<open>Filters\<close>

lemma runFilters_first_rejection:
  "(\<forall>g \<in> set pre. ft g event = Inr True) \<Longrightarrow> ft f event = Inr False \<Longrightarrow>
   runFilters ft (pre @ f # post) event = (pre @ [f], Inr False)"
  by (induction pre) simp_all

lemma first_rejecting_filter:
  assumes "\<forall>g \<in> set fs. \<exists>b. ft g event = Inr b" and "\<exists>f \<in> set fs. ft f event = Inr False"
  shows "\<exists>pre f post. fs = pre @ f # post \<and> (\<forall>g \<in> set pre. ft g event = Inr True)
           \<and> ft f event = Inr False"
proof -
  from assms(2) obtain pre f post where
    d: "fs = pre @ f # post" "ft f event = Inr False" "\<forall>g \<in> set pre. ft g event \<noteq> Inr False"
    using split_list_first_prop [of fs "\<lambda>g. ft g event = Inr False"] by blast
  have "\<forall>g \<in> set pre. ft g event = Inr True"
  proof
    fix g assume g: "g \<in> set pre"
    then obtain b where "ft g event = Inr b" using assms(1) d(1) by auto
    with d(3) g show "ft g event = Inr True" by (cases b) auto
  qed
  with d show ?thesis by blast
qed

lemma fanOut_numeral:
  "fanOut lt env (numeral k) sl ref i event r =
     (if length (theSet ref (hub r)) \<le> i then Some r
      else (case theSet ref (hub r) ! i of
              None \<Rightarrow> fanOut lt env (pred_numeral k) sl ref (Suc i) event r
            | Some l \<Rightarrow> fanOut lt env (pred_numeral k) sl ref (Suc i) event (afterCall lt env sl l event r)))"
  by (simp only: numeral_eq_Suc fanOut_Suc)

lemmas hub_eval = fanOut_numeral fanOut_Suc run_defs reached_def sampleFilters_def sampleListeners_def on_def off_def
  addFilter_def removeFilter_def removeAllListeners_def clearHistory_def set_add_def set_has_def
  set_delete_def set_clear_def afterCall_def suspended_def applyCall_def silenced_def withoutConsole_def
  thrownBy_def map_filter_def listenersOf_def keepsWildcards_def subscribesTo_def unsubscribing_def
  busy_def Let_def

text \<open>
  C3. When the first filter that does not answer true answers false, \<open>emit\<close>
  returns in the state it was called in, whatever the step bound and whatever else
  runs in the program: no listener was called, nothing was logged, the history is as
  before, and the filters after the rejecting one were not called. For filters that
  all answer true or false, this is the case as soon as one of them answers false.
\<close>

theorem rejected_event_has_no_effect:
  "(set_values (filters (hub r)) = pre @ f # post \<and> (\<forall>g \<in> set pre. ft g event = Inr True)
      \<and> ft f event = Inr False \<longrightarrow>
    emit ft lt env n event r = Some (Inr r)
    \<and> fst (runFilters ft (set_values (filters (hub r))) event) = pre @ [f])
   \<and> ((\<forall>g \<in> set (set_values (filters (hub r))). \<exists>b. ft g event = Inr b)
      \<and> (\<exists>g \<in> set (set_values (filters (hub r))). ft g event = Inr False) \<longrightarrow>
    emit ft lt env n event r = Some (Inr r))"
proof (intro conjI impI)
  assume a: "set_values (filters (hub r)) = pre @ f # post \<and> (\<forall>g \<in> set pre. ft g event = Inr True)
      \<and> ft f event = Inr False"
  then have "runFilters ft (set_values (filters (hub r))) event = (pre @ [f], Inr False)"
    by (simp add: runFilters_first_rejection)
  then show "emit ft lt env n event r = Some (Inr r)"
    and "fst (runFilters ft (set_values (filters (hub r))) event) = pre @ [f]"
    by (simp_all add: emit_def)
next
  assume "(\<forall>g \<in> set (set_values (filters (hub r))). \<exists>b. ft g event = Inr b)
      \<and> (\<exists>g \<in> set (set_values (filters (hub r))). ft g event = Inr False)"
  then obtain pre f post where "set_values (filters (hub r)) = pre @ f # post"
     "\<forall>g \<in> set pre. ft g event = Inr True" "ft f event = Inr False"
    using first_rejecting_filter [of "set_values (filters (hub r))" ft event] by blast
  then have "runFilters ft (set_values (filters (hub r))) event = (pre @ [f], Inr False)"
    by (simp add: runFilters_first_rejection)
  then show "emit ft lt env n event r = Some (Inr r)"
    by (simp add: emit_def)
qed

theorem rejected_event_has_no_effect_witness:
  "set_values (filters (hub (reached [AddFilter 1, AddFilter 2, AddFilter 3, Subscribe ''move'' 7, Subscribe ''*'' 8])))
     = [1] @ 2 # [3]
   \<and> sampleFilters 1 (sampleEvent ''move'' 9) = Inr True
   \<and> sampleFilters 2 (sampleEvent ''move'' 9) = Inr False
   \<and> sampleFilters 3 (sampleEvent ''move'' 9) = Inl ''filter failed''
   \<and> emit sampleFilters quiet idle 5 (sampleEvent ''move'' 9)
        (reached [AddFilter 1, AddFilter 2, AddFilter 3, Subscribe ''move'' 7, Subscribe ''*'' 8])
     = Some (Inr (reached [AddFilter 1, AddFilter 2, AddFilter 3, Subscribe ''move'' 7, Subscribe ''*'' 8]))
   \<and> fst (runFilters sampleFilters
        (set_values (filters (hub (reached [AddFilter 1, AddFilter 2, AddFilter 3, Subscribe ''move'' 7, Subscribe ''*'' 8]))))
        (sampleEvent ''move'' 9)) = [1, 2]
   \<and> globalListeners (hub (reached [AddFilter 1, AddFilter 2, AddFilter 3, Subscribe ''move'' 7, Subscribe ''*'' 8]))
     = [Some 8]
   \<and> invoked (reached [AddFilter 1, AddFilter 2, AddFilter 3, Subscribe ''move'' 7, Subscribe ''*'' 8]) = []
   \<and> eventHistory (hub (reached [AddFilter 1, AddFilter 2, AddFilter 3, Subscribe ''move'' 7, Subscribe ''*'' 8])) = []
   \<and> set_values (filters (hub (reached [AddFilter 1, AddFilter 2, Subscribe ''*'' 8]))) = [1, 2]
   \<and> emit sampleFilters quiet idle 5 (sampleEvent ''move'' 9) (reached [AddFilter 1, AddFilter 2, Subscribe ''*'' 8])
     = Some (Inr (reached [AddFilter 1, AddFilter 2, Subscribe ''*'' 8]))"
  using rejected_event_has_no_effect
          [of "reached [AddFilter 1, AddFilter 2, AddFilter 3, Subscribe ''move'' 7, Subscribe ''*'' 8]"
              "[1]" 2 "[3]" sampleFilters "sampleEvent ''move'' 9" quiet idle 5]
        rejected_event_has_no_effect
          [of "reached [AddFilter 1, AddFilter 2, Subscribe ''*'' 8]"
              "[1]" 2 "[]" sampleFilters "sampleEvent ''move'' 9" quiet idle 5]
  by (simp add: hub_eval)

section \<open>Exceptions of listeners\<close>

lemma withoutConsole_afterCall:
  assumes "withoutConsole r = withoutConsole r'"
  shows "withoutConsole (afterCall lt env sl l event r) = withoutConsole (afterCall (silenced lt) env sl l event r')"
proof -
  have "hub (withoutConsole r) = hub (withoutConsole r')"
    and "invoked (withoutConsole r) = invoked (withoutConsole r')"
    using assms by simp_all
  then have "hub r = hub r'" "invoked r = invoked r'"
    by (simp_all add: withoutConsole_def)
  then show ?thesis
    using assms by (simp add: withoutConsole_def afterCall_def suspended_def silenced_def)
qed

lemma fanOut_silenced:
  "withoutConsole r = withoutConsole r' \<Longrightarrow>
   map_option withoutConsole (fanOut lt env n sl ref i event r) =
   map_option withoutConsole (fanOut (silenced lt) env n sl ref i event r')"
proof (induction n arbitrary: i r r')
  case 0
  then show ?case by simp
next
  case (Suc n)
  have "hub (withoutConsole r) = hub (withoutConsole r')"
    using Suc.prems by simp
  then have hub: "hub r = hub r'"
    by (simp add: withoutConsole_def)
  let ?s = "theSet ref (hub r)"
  show ?case
  proof (cases "length ?s \<le> i")
    case True
    then show ?thesis using Suc.prems hub by (simp add: fanOut_Suc)
  next
    case False
    show ?thesis
    proof (cases "?s ! i")
      case None
      then show ?thesis using False hub Suc.IH [OF Suc.prems] by (simp add: fanOut_Suc)
    next
      case (Some l)
      show ?thesis
        using False Some hub Suc.IH [OF withoutConsole_afterCall [OF Suc.prems, of lt env sl l event]]
        by (simp add: fanOut_Suc)
    qed
  qed
qed

lemma emit_rejection:
  "emit ft lt env n event r = Some (Inl err) \<Longrightarrow>
   snd (runFilters ft (set_values (filters (hub r))) event) = Inl err"
  by (auto simp: emit_def Let_def split: sum.splits bool.splits option.splits)

lemma map_option_Inr:
  "map_option f a = map_option f b \<Longrightarrow>
   map_option (map_sum id f) (map_option Inr a) = map_option (map_sum id f) (map_option Inr b)"
  by (cases a; cases b) auto

lemma typeFanOut_silenced:
  "withoutConsole r = withoutConsole r' \<Longrightarrow>
   map_option withoutConsole (typeFanOut lt env n event r) =
   map_option withoutConsole (typeFanOut (silenced lt) env n event r')"
proof -
  assume a: "withoutConsole r = withoutConsole r'"
  then have "hub (withoutConsole r) = hub (withoutConsole r')" by simp
  then have hub: "hub r = hub r'" by (simp add: withoutConsole_def)
  show ?thesis
    using a hub fanOut_silenced [OF a]
    by (cases "listeners (hub r') (type event)") (simp_all add: typeFanOut_def)
qed

lemma emit_silenced:
  "map_option (map_sum id withoutConsole) (emit ft lt env n event r) =
   map_option (map_sum id withoutConsole) (emit ft (silenced lt) env n event r)"
proof (cases "snd (runFilters ft (set_values (filters (hub r))) event) = Inr True")
  case False
  then show ?thesis
    by (auto simp: emit_def split: sum.splits bool.splits)
next
  case True
  let ?r1 = "r\<lparr>hub := addToHistory event (hub r)\<rparr>"
  have t: "map_option withoutConsole (typeFanOut lt env n event ?r1) =
           map_option withoutConsole (typeFanOut (silenced lt) env n event ?r1)"
    by (rule typeFanOut_silenced) simp
  show ?thesis
  proof (cases "typeFanOut lt env n event ?r1")
    case None
    with t have "typeFanOut (silenced lt) env n event ?r1 = None" by simp
    with None True show ?thesis by (simp add: emit_def)
  next
    case (Some r2)
    with t obtain r2' where r2': "typeFanOut (silenced lt) env n event ?r1 = Some r2'"
      "withoutConsole r2 = withoutConsole r2'"
      by (cases "typeFanOut (silenced lt) env n event ?r1") auto
    show ?thesis
      using True Some r2'
            map_option_Inr [OF fanOut_silenced [OF r2'(2), of lt env n Wildcard GlobalSet 0 event]]
      by (simp add: emit_def)
  qed
qed

text \<open>
  C4. Whether listeners throw or not, \<open>emit\<close> calls the same listeners in the same
  order and leaves the same manager: console apart, its outcome is the one under the
  table in which no listener throws. A rejected promise of \<open>emit\<close> is the exception
  of a filter, never that of a listener. Every exception of a listener is one line
  of the console.
\<close>

theorem listener_exceptions_are_isolated:
  "map_option (map_sum id withoutConsole) (emit ft lt env n event r) =
     map_option (map_sum id withoutConsole) (emit ft (silenced lt) env n event r)
   \<and> (emit ft lt env n event r = Some (Inl err) \<longrightarrow>
        snd (runFilters ft (set_values (filters (hub r))) event) = Inl err)
   \<and> (emit ft lt env n event r = Some (Inr r') \<longrightarrow>
        (\<exists>new. invoked r' = invoked r @ new \<and> console r' = console r @ thrownBy lt new))"
  using emit_silenced [of ft lt env n event r] emit_rejection [of ft lt env n event r err]
        emit_log [of ft lt env n event r r']
  by blast

theorem listener_exceptions_are_isolated_witness:
  "map_option (map_sum id (\<lambda>r. (invoked r, console r)))
     (emit acceptAll sampleListeners idle 5 (sampleEvent ''chat'' 9)
        (reached [Subscribe ''chat'' 1, Subscribe ''chat'' 2, Subscribe ''*'' 1, Subscribe ''*'' 3]))
   = Some (Inr ([(Kind ''chat'', 1, sampleEvent ''chat'' 9), (Kind ''chat'', 2, sampleEvent ''chat'' 9),
                 (Wildcard, 1, sampleEvent ''chat'' 9), (Wildcard, 3, sampleEvent ''chat'' 9)],
                [(Kind ''chat'', ''boom''), (Wildcard, ''boom'')]))
   \<and> map_option (map_sum id (\<lambda>r. (invoked r, console r)))
     (emit acceptAll (silenced sampleListeners) idle 5 (sampleEvent ''chat'' 9)
        (reached [Subscribe ''chat'' 1, Subscribe ''chat'' 2, Subscribe ''*'' 1, Subscribe ''*'' 3]))
   = Some (Inr ([(Kind ''chat'', 1, sampleEvent ''chat'' 9), (Kind ''chat'', 2, sampleEvent ''chat'' 9),
                 (Wildcard, 1, sampleEvent ''chat'' 9), (Wildcard, 3, sampleEvent ''chat'' 9)],
                []))"
  using listener_exceptions_are_isolated
          [of acceptAll sampleListeners idle 5 "sampleEvent ''chat'' 9"
              "reached [Subscribe ''chat'' 1, Subscribe ''chat'' 2, Subscribe ''*'' 1, Subscribe ''*'' 3]"]
  by (simp add: hub_eval)

section \<open>Wildcard listeners\<close>

lemma set_values_append [simp]: "set_values (s @ t) = set_values s @ set_values t"
  by (induction s rule: set_values.induct) simp_all

lemma set_set_values: "set (set_values s) = {v. Some v \<in> set s}"
  by (induction s rule: set_values.induct) auto

lemma set_has_iff: "set_has s v = (v \<in> set (set_values s))"
  by (simp add: set_has_def set_set_values)

lemma set_values_add_distinct: "distinct (set_values s) \<Longrightarrow> distinct (set_values (set_add s v))"
  by (simp add: set_add_def set_has_iff)

lemma set_values_delete: "set_values (set_delete s v) = removeAll v (set_values s)"
  by (induction s rule: set_values.induct) (auto simp: set_delete_def)

lemma set_values_delete_distinct: "distinct (set_values s) \<Longrightarrow> distinct (set_values (set_delete s v))"
  by (simp add: set_values_delete distinct_removeAll)

lemma set_values_clear: "set_values (set_clear s) = []"
  by (induction s) (simp_all add: set_clear_def)

lemma set_values_drop:
  "i < length s \<Longrightarrow> set_values (drop i s) =
     (case s ! i of None \<Rightarrow> [] | Some l \<Rightarrow> [l]) @ set_values (drop (Suc i) s)"
  by (simp add: Cons_nth_drop_Suc [symmetric] split: option.splits)

lemma set_delete_absent: "\<not> set_has s v \<Longrightarrow> set_delete s v = s"
  by (induction s) (auto simp: set_delete_def set_has_def)

lemma set_clear_empty: "set_values s = [] \<Longrightarrow> set_clear s = s"
  by (induction s rule: set_values.induct) (simp_all add: set_clear_def)

subsection \<open>A loop over a set that is left alone\<close>

lemma keepsWildcards_applyCall:
  "keepsWildcards g c \<Longrightarrow> globalListeners h = g \<Longrightarrow> globalListeners (applyCall h c) = g"
  by (cases c)
     (auto simp: keepsWildcards_def applyCall_def on_def off_def addFilter_def removeFilter_def
                 setMaxHistorySize_def clearHistory_def removeAllListeners_def addToHistory_def Let_def
                 set_add_def set_delete_absent set_clear_empty
           split: option.splits if_splits)

lemma afterCall_wildcards:
  assumes "\<forall>c \<in> set (calls (lt l event)). keepsWildcards g c"
    and "\<forall>c \<in> set (env (Suc (length (invoked r)))). keepsWildcards g c"
    and "globalListeners (hub r) = g"
  shows "globalListeners (hub (afterCall lt env sl l event r)) = g"
  by (rule afterCall_invariant [where Q = "keepsWildcards g" and P = "\<lambda>h. globalListeners h = g"
                                   and lt = lt and env = env])
     (use assms keepsWildcards_applyCall in auto)

lemma fanOut_wildcards:
  "globalListeners (hub r) = g \<Longrightarrow>
   \<forall>l \<in> set (set_values (drop i g)). \<forall>c \<in> set (calls (lt l event)). keepsWildcards g c \<Longrightarrow>
   \<forall>k. length (invoked r) < k \<and> k \<le> length (invoked r) + length (set_values (drop i g)) \<longrightarrow>
       (\<forall>c \<in> set (env k). keepsWildcards g c) \<Longrightarrow>
   length g - i < n \<Longrightarrow>
   \<exists>r'. fanOut lt env n Wildcard GlobalSet i event r = Some r'
      \<and> invoked r' = invoked r @ map (\<lambda>l. (Wildcard, l, event)) (set_values (drop i g))
      \<and> globalListeners (hub r') = g"
proof (induction n arbitrary: i r)
  case 0
  then show ?case by simp
next
  case (Suc n)
  have s: "theSet GlobalSet (hub r) = g" using Suc.prems(1) by (simp add: theSet_def)
  show ?case
  proof (cases "length g \<le> i")
    case True
    then show ?thesis using s Suc.prems(1) by (simp add: fanOut_Suc)
  next
    case False
    then have i: "i < length g" by simp
    then have fuel: "length g - Suc i < n" using Suc.prems(4) by simp
    show ?thesis
    proof (cases "g ! i")
      case None
      then have v: "set_values (drop i g) = set_values (drop (Suc i) g)"
        using set_values_drop [OF i] by simp
      from Suc.IH [of r "Suc i", OF Suc.prems(1) _ _ fuel] Suc.prems(2,3) v
      obtain r' where "fanOut lt env n Wildcard GlobalSet (Suc i) event r = Some r'"
        "invoked r' = invoked r @ map (\<lambda>l. (Wildcard, l, event)) (set_values (drop (Suc i) g))"
        "globalListeners (hub r') = g" by auto
      then show ?thesis using False None s v by (simp add: fanOut_Suc)
    next
      case (Some l)
      let ?r1 = "afterCall lt env Wildcard l event r"
      have v: "set_values (drop i g) = l # set_values (drop (Suc i) g)"
        using set_values_drop [OF i] Some by simp
      have a: "\<forall>c \<in> set (calls (lt l event)). keepsWildcards g c"
        using Suc.prems(2) v by simp
      have b: "\<forall>c \<in> set (env (Suc (length (invoked r)))). keepsWildcards g c"
        using Suc.prems(3) [rule_format, of "Suc (length (invoked r))"] v by simp
      have g1: "globalListeners (hub ?r1) = g"
        using afterCall_wildcards [where lt = lt and env = env and l = l and event = event and r = r and g = g]
              a b Suc.prems(1) by blast
      have c: "\<forall>l \<in> set (set_values (drop (Suc i) g)). \<forall>c \<in> set (calls (lt l event)). keepsWildcards g c"
        using Suc.prems(2) v by simp
      have d: "\<forall>k. length (invoked ?r1) < k \<and> k \<le> length (invoked ?r1) + length (set_values (drop (Suc i) g)) \<longrightarrow>
                 (\<forall>c \<in> set (env k). keepsWildcards g c)"
      proof (intro allI impI)
        fix k assume "length (invoked ?r1) < k \<and> k \<le> length (invoked ?r1) + length (set_values (drop (Suc i) g))"
        then have "length (invoked r) < k \<and> k \<le> length (invoked r) + length (set_values (drop i g))"
          using v by simp
        with Suc.prems(3) show "\<forall>c \<in> set (env k). keepsWildcards g c" by blast
      qed
      from Suc.IH [of ?r1 "Suc i", OF g1 c d fuel]
      obtain r' where "fanOut lt env n Wildcard GlobalSet (Suc i) event ?r1 = Some r'"
        "invoked r' = invoked ?r1 @ map (\<lambda>l. (Wildcard, l, event)) (set_values (drop (Suc i) g))"
        "globalListeners (hub r') = g" by auto
      then show ?thesis using False Some s v by (simp add: fanOut_Suc)
    qed
  qed
qed

subsection \<open>The sets of a manager that a client can reach\<close>

lemma applyCall_distinct:
  "distinct (set_values (globalListeners h)) \<Longrightarrow> distinct (set_values (globalListeners (applyCall h c)))"
  by (cases c)
     (auto simp: applyCall_def on_def off_def addFilter_def removeFilter_def
                 setMaxHistorySize_def clearHistory_def removeAllListeners_def addToHistory_def Let_def
                 set_values_add_distinct set_values_delete_distinct set_values_clear
           split: option.splits)

text \<open>
  The addresses in the \<open>Map\<close> have been allocated, and no two keys share one.
\<close>

lemma applyCall_addresses:
  assumes "\<forall>k a. listeners h k = Some a \<longrightarrow> a < allocated h \<and> (\<forall>k'. listeners h k' = Some a \<longrightarrow> k' = k)"
  shows "\<forall>k a. listeners (applyCall h c) k = Some a \<longrightarrow>
           a < allocated (applyCall h c) \<and> (\<forall>k'. listeners (applyCall h c) k' = Some a \<longrightarrow> k' = k)"
proof (cases c)
  case (On k0 l)
  show ?thesis
  proof (cases "k0 = ''*'' \<or> listeners h k0 \<noteq> None")
    case True
    then show ?thesis using assms On by (auto simp: applyCall_def on_def)
  next
    case False
    then have h': "listeners (applyCall h c) = (listeners h)(k0 \<mapsto> allocated h)"
      "allocated (applyCall h c) = Suc (allocated h)"
      using On by (simp_all add: applyCall_def on_def)
    show ?thesis
      unfolding h' using assms by (auto simp: less_Suc_eq split: if_splits)
  qed
qed (use assms in \<open>auto simp: applyCall_def off_def addFilter_def removeFilter_def
       setMaxHistorySize_def clearHistory_def removeAllListeners_def addToHistory_def Let_def
       split: option.splits\<close>)

lemma perform_invariant:
  assumes step: "\<And>h c. P h \<Longrightarrow> P (applyCall h c)"
    and run: "perform ft lt env n c r = Some (Inr r')" "P (hub r)"
  shows "P (hub r')"
proof -
  have e: "P (hub r')" if "emit ft lt env n event r = Some (Inr r')" for event
    by (rule emit_invariant [where Q = "\<lambda>c. True" and P = P and lt = lt and env = env, OF _ _ that run(2)])
       (use step [of _ "Push event"] step in \<open>auto simp: applyCall_def\<close>)
  show ?thesis
  proof (cases c)
    case (Emit event)
    with run e show ?thesis by auto
  next
    case (CreateAndEmit now ty sev descr dat)
    with run e show ?thesis by (auto simp: createAndEmit_def)
  next
    case (Subscribe k l)
    with run step [of "hub r" "On k l"] show ?thesis by (auto simp: applyCall_def)
  next
    case (Unsubscribe k l)
    with run step [of "hub r" "Off k l"] show ?thesis by (auto simp: applyCall_def)
  next
    case (AddFilter f)
    with run step [of "hub r" "AddF f"] show ?thesis by (auto simp: applyCall_def)
  next
    case (RemoveFilter f)
    with run step [of "hub r" "RemoveF f"] show ?thesis by (auto simp: applyCall_def)
  next
    case (SetMaxHistorySize sz)
    with run step [of "hub r" "SetMax sz"] show ?thesis by (auto simp: applyCall_def)
  next
    case ClearHistory
    with run step [of "hub r" Clear] show ?thesis by (auto simp: applyCall_def)
  next
    case RemoveAllListeners
    with run step [of "hub r" RemoveAll] show ?thesis by (auto simp: applyCall_def)
  qed
qed

lemma performAll_invariant:
  assumes step: "\<And>h c. P h \<Longrightarrow> P (applyCall h c)"
  shows "performAll ft lt env n cs r = Some (Inr r') \<Longrightarrow> P (hub r) \<Longrightarrow> P (hub r')"
proof (induction cs arbitrary: r)
  case Nil
  then show ?case by simp
next
  case (Cons c cs)
  from Cons.prems(1) obtain r1 where p: "perform ft lt env n c r = Some (Inr r1)"
    and rest: "performAll ft lt env n cs r1 = Some (Inr r')"
    by (auto split: option.splits sum.splits)
  have "P (hub r1)"
    by (rule perform_invariant [where P = P, OF _ p Cons.prems(2)]) (rule step)
  from Cons.IH [OF rest this] show ?case .
qed

lemma reached_distinct:
  assumes "performAll ft lt env n cs newRun = Some (Inr r)"
  shows "distinct (set_values (globalListeners (hub r)))"
  by (rule performAll_invariant [where P = "\<lambda>h. distinct (set_values (globalListeners h))", OF _ assms])
     (simp_all add: applyCall_distinct newRun_def newEventManager_def)

lemma reached_addresses:
  assumes "performAll ft lt env n cs newRun = Some (Inr r)"
  shows "\<forall>k a. listeners (hub r) k = Some a \<longrightarrow>
           a < allocated (hub r) \<and> (\<forall>k'. listeners (hub r) k' = Some a \<longrightarrow> k' = k)"
  by (rule performAll_invariant
        [where P = "\<lambda>h. \<forall>k a. listeners h k = Some a \<longrightarrow>
                         a < allocated h \<and> (\<forall>k'. listeners h k' = Some a \<longrightarrow> k' = k)", OF _ assms])
     (simp_all add: applyCall_addresses newRun_def newEventManager_def)

subsection \<open>A loop over a set that nothing is added to\<close>

text \<open>
  A set some entries of which have been emptied since: the same number of entries,
  and fewer members.
\<close>

lemma emptied_values:
  "list_all2 (\<lambda>e' e. e' = e \<or> e' = None) s' s \<Longrightarrow>
   set (set_values s') \<subseteq> set (set_values s) \<and> length (set_values s') \<le> length (set_values s)"
proof (induction rule: list_all2_induct)
  case Nil
  then show ?case by simp
next
  case (Cons e' s' e s)
  then show ?case by (cases e; cases e') auto
qed

lemma emptied_delete: "list_all2 (\<lambda>e' e. e' = e \<or> e' = None) (set_delete s v) s"
  by (simp add: set_delete_def list_all2_map1 list_all2_same)

lemma emptied_trans:
  "list_all2 (\<lambda>e' e. e' = e \<or> e' = None) s2 s1 \<Longrightarrow> list_all2 (\<lambda>e' e. e' = e \<or> e' = None) s1 s0 \<Longrightarrow>
   list_all2 (\<lambda>e' e. e' = e \<or> e' = (None :: 'a option)) s2 s0"
  using list_all2_trans
          [of "\<lambda>e' e. e' = e \<or> e' = None" "\<lambda>e' e. e' = e \<or> e' = None"
              "\<lambda>e' e. e' = e \<or> e' = None" s2 s1 s0]
  by auto

text \<open>
  The \<open>Set\<close> object at address \<open>a\<close> is that of the type \<open>k\<close> or of no type, and
  a call that is not \<open>on\<close> for \<open>k\<close> adds nothing to it.
\<close>

lemma applyCall_owned:
  fixes a :: nat and k :: string and own
  defines "own \<equiv> \<lambda>h. a < allocated h
             \<and> (\<forall>k' a'. listeners h k' = Some a' \<longrightarrow> a' < allocated h \<and> (a' = a \<longrightarrow> k' = k))"
  assumes "own h" "\<not> subscribesTo k c"
  shows "own (applyCall h c)
         \<and> list_all2 (\<lambda>e' e. e' = e \<or> e' = None) (setObjects (applyCall h c) a) (setObjects h a)"
proof (cases c)
  case (On k0 l)
  then have k0: "k0 \<noteq> k" using assms(3) by (simp add: subscribesTo_def)
  show ?thesis
  proof (cases "k0 = ''*''")
    case True
    then show ?thesis using assms(2) On by (simp add: own_def applyCall_def on_def list_all2_same)
  next
    case False
    show ?thesis
    proof (cases "listeners h k0")
      case None
      then have h': "listeners (applyCall h c) = (listeners h)(k0 \<mapsto> allocated h)"
        "allocated (applyCall h c) = Suc (allocated h)"
        "setObjects (applyCall h c) = (setObjects h)(allocated h := set_add [] l)"
        using On False by (simp_all add: applyCall_def on_def)
      show ?thesis
        using assms(2) k0 by (auto simp: h' own_def less_Suc_eq list_all2_same)
    next
      case (Some a0)
      then have a0: "a0 \<noteq> a" using assms(2) k0 by (auto simp: own_def)
      have h': "listeners (applyCall h c) = listeners h" "allocated (applyCall h c) = allocated h"
        "setObjects (applyCall h c) = (setObjects h)(a0 := set_add (setObjects h a0) l)"
        using On False Some by (simp_all add: applyCall_def on_def)
      show ?thesis
        using assms(2) a0 by (auto simp: h' own_def list_all2_same)
    qed
  qed
next
  case (Off k0 l)
  show ?thesis
  proof (cases "k0 = ''*'' \<or> listeners h k0 = None")
    case True
    then show ?thesis
      using assms(2) Off by (auto simp: own_def applyCall_def off_def list_all2_same)
  next
    case False
    then obtain a0 where a0: "listeners h k0 = Some a0" by auto
    have h': "listeners (applyCall h c) = listeners h" "allocated (applyCall h c) = allocated h"
      "setObjects (applyCall h c) = (setObjects h)(a0 := set_delete (setObjects h a0) l)"
      using Off False a0 by (simp_all add: applyCall_def off_def)
    show ?thesis
      using assms(2) by (auto simp: h' own_def list_all2_same emptied_delete)
  qed
qed (use assms(2) in \<open>auto simp: own_def applyCall_def addFilter_def removeFilter_def
       setMaxHistorySize_def clearHistory_def removeAllListeners_def addToHistory_def Let_def
       list_all2_same\<close>)

lemma afterCall_owned:
  fixes a :: nat and k :: string and own
  defines "own \<equiv> \<lambda>h. a < allocated h
             \<and> (\<forall>k' a'. listeners h k' = Some a' \<longrightarrow> a' < allocated h \<and> (a' = a \<longrightarrow> k' = k))"
  assumes "own (hub r)"
    and "\<forall>c \<in> set (calls (lt l event)). \<not> subscribesTo k c"
    and "\<forall>c \<in> set (env (Suc (length (invoked r)))). \<not> subscribesTo k c"
  shows "own (hub (afterCall lt env sl l event r))
         \<and> list_all2 (\<lambda>e' e. e' = e \<or> e' = None)
             (setObjects (hub (afterCall lt env sl l event r)) a) (setObjects (hub r) a)"
proof -
  let ?P = "\<lambda>h. own h \<and> list_all2 (\<lambda>e' e. e' = e \<or> e' = None) (setObjects h a) (setObjects (hub r) a)"
  have step: "?P (applyCall h c)" if "\<not> subscribesTo k c" "?P h" for h c
    using applyCall_owned [where a = a and h = h and k = k and c = c] that emptied_trans [of "setObjects (applyCall h c) a" "setObjects h a"]
    by (auto simp: own_def)
  have "?P (hub r)" using assms(2) by (simp add: list_all2_same)
  then have "?P (hub (afterCall lt env sl l event r))"
    by (intro afterCall_invariant [where Q = "\<lambda>c. \<not> subscribesTo k c" and P = ?P and lt = lt and env = env])
       (use step assms(3,4) in auto)
  then show ?thesis by simp
qed

lemma fanOut_type_ends:
  "a < allocated (hub r)
     \<and> (\<forall>k' a'. listeners (hub r) k' = Some a' \<longrightarrow> a' < allocated (hub r) \<and> (a' = a \<longrightarrow> k' = k)) \<Longrightarrow>
   \<forall>l \<in> set (set_values (drop i (setObjects (hub r) a))). \<forall>c \<in> set (calls (lt l event)). \<not> subscribesTo k c \<Longrightarrow>
   \<forall>j. length (invoked r) < j \<and> j \<le> length (invoked r) + length (set_values (drop i (setObjects (hub r) a))) \<longrightarrow>
       (\<forall>c \<in> set (env j). \<not> subscribesTo k c) \<Longrightarrow>
   length (setObjects (hub r) a) - i < n \<Longrightarrow>
   \<exists>r'. fanOut lt env n (Kind k) (TypeSet a) i event r = Some r'"
proof (induction n arbitrary: i r)
  case 0
  then show ?case by simp
next
  case (Suc n)
  let ?s = "setObjects (hub r) a"
  have s: "theSet (TypeSet a) (hub r) = ?s" by (simp add: theSet_def)
  show ?case
  proof (cases "length ?s \<le> i")
    case True
    then show ?thesis using s by (simp add: fanOut_Suc)
  next
    case False
    then have i: "i < length ?s" by simp
    then have fuel: "length ?s - Suc i < n" using Suc.prems(4) by simp
    show ?thesis
    proof (cases "?s ! i")
      case None
      then have v: "set_values (drop i ?s) = set_values (drop (Suc i) ?s)"
        using set_values_drop [OF i] by simp
      from Suc.IH [of r "Suc i", OF Suc.prems(1) _ _ fuel] Suc.prems(2,3) v
      obtain r' where "fanOut lt env n (Kind k) (TypeSet a) (Suc i) event r = Some r'" by auto
      then show ?thesis using False None s by (simp add: fanOut_Suc)
    next
      case (Some l)
      let ?r1 = "afterCall lt env (Kind k) l event r"
      let ?s1 = "setObjects (hub ?r1) a"
      have v: "set_values (drop i ?s) = l # set_values (drop (Suc i) ?s)"
        using set_values_drop [OF i] Some by simp
      have a: "\<forall>c \<in> set (calls (lt l event)). \<not> subscribesTo k c"
        using Suc.prems(2) v by simp
      have b: "\<forall>c \<in> set (env (Suc (length (invoked r)))). \<not> subscribesTo k c"
        using Suc.prems(3) [rule_format, of "Suc (length (invoked r))"] v by simp
      from afterCall_owned [where a = a and r = r and k = k and lt = lt and l = l and event = event and env = env and sl = "Kind k"] Suc.prems(1) a b
      have own1: "a < allocated (hub ?r1)
           \<and> (\<forall>k' a'. listeners (hub ?r1) k' = Some a' \<longrightarrow> a' < allocated (hub ?r1) \<and> (a' = a \<longrightarrow> k' = k))"
        and em: "list_all2 (\<lambda>e' e. e' = e \<or> e' = None) ?s1 ?s" by blast+
      have len: "length ?s1 = length ?s" using em by (rule list_all2_lengthD)
      have "list_all2 (\<lambda>e' e. e' = e \<or> e' = None) (drop (Suc i) ?s1) (drop (Suc i) ?s)"
        using em by (rule list_all2_dropI)
      from emptied_values [OF this]
      have sub: "set (set_values (drop (Suc i) ?s1)) \<subseteq> set (set_values (drop (Suc i) ?s))"
        and le: "length (set_values (drop (Suc i) ?s1)) \<le> length (set_values (drop (Suc i) ?s))" by simp_all
      have c: "\<forall>l \<in> set (set_values (drop (Suc i) ?s1)). \<forall>c \<in> set (calls (lt l event)). \<not> subscribesTo k c"
        using Suc.prems(2) v sub by auto
      have d: "\<forall>j. length (invoked ?r1) < j \<and> j \<le> length (invoked ?r1) + length (set_values (drop (Suc i) ?s1)) \<longrightarrow>
                 (\<forall>c \<in> set (env j). \<not> subscribesTo k c)"
      proof (intro allI impI)
        fix j assume "length (invoked ?r1) < j \<and> j \<le> length (invoked ?r1) + length (set_values (drop (Suc i) ?s1))"
        then have "length (invoked r) < j \<and> j \<le> length (invoked r) + length (set_values (drop i ?s))"
          using v le by simp
        with Suc.prems(3) show "\<forall>c \<in> set (env j). \<not> subscribesTo k c" by blast
      qed
      have "length ?s1 - Suc i < n" using fuel len by simp
      from Suc.IH [of ?r1 "Suc i", OF own1 c d this]
      obtain r' where "fanOut lt env n (Kind k) (TypeSet a) (Suc i) event ?r1 = Some r'" by blast
      then show ?thesis using False Some s by (simp add: fanOut_Suc)
    qed
  qed
qed

lemma typeFanOut_ends:
  assumes "\<forall>k a. listeners (hub r) k = Some a \<longrightarrow>
             a < allocated (hub r) \<and> (\<forall>k'. listeners (hub r) k' = Some a \<longrightarrow> k' = k)"
    and "\<forall>l \<in> set (set_values (listenersOf (type event) (hub r))). \<forall>c \<in> set (calls (lt l event)).
           \<not> subscribesTo (type event) c"
    and "\<forall>j. length (invoked r) < j
             \<and> j \<le> length (invoked r) + length (set_values (listenersOf (type event) (hub r))) \<longrightarrow>
           (\<forall>c \<in> set (env j). \<not> subscribesTo (type event) c)"
    and "length (listenersOf (type event) (hub r)) < n"
  shows "\<exists>r2. typeFanOut lt env n event r = Some r2"
proof (cases "listeners (hub r) (type event)")
  case None
  then show ?thesis by (simp add: typeFanOut_def)
next
  case (Some a)
  then have l: "listenersOf (type event) (hub r) = setObjects (hub r) a"
    by (simp add: listenersOf_def)
  have own: "a < allocated (hub r)
     \<and> (\<forall>k' a'. listeners (hub r) k' = Some a' \<longrightarrow> a' < allocated (hub r) \<and> (a' = a \<longrightarrow> k' = type event))"
    using assms(1) Some by blast
  have "\<exists>r'. fanOut lt env n (Kind (type event)) (TypeSet a) 0 event r = Some r'"
    by (rule fanOut_type_ends [OF own]) (use assms(2-4) l in simp_all)
  then show ?thesis using Some by (simp add: typeFanOut_def)
qed

subsection \<open>Delivery to the wildcard listeners\<close>

lemma count_list_distinct:
  "distinct xs \<Longrightarrow> count_list xs v = (if v \<in> set xs then 1 else 0)"
  by (induction xs) auto

lemma count_list_wildcards:
  "count_list (map (\<lambda>l. (Wildcard, l, event)) xs) (Wildcard, v, event) = count_list xs v"
  by (induction xs) auto

lemma count_list_other_slot:
  "\<forall>x \<in> set xs. fst x = Kind k \<Longrightarrow> count_list xs (Wildcard, v, event) = 0"
  by (induction xs) auto

lemma count_list_append: "count_list (xs @ ys) v = count_list xs v + count_list ys v"
  by (induction xs) auto

text \<open>
  C2, as the claim states it, fails: each loop of \<open>emit\<close> runs over the set
  itself. Listener 4 subscribes listener 5 while the event is delivered, and
  listener 5 is called with that event; listener 6 unsubscribes listener 7, which was
  subscribed when the event was accepted, and listener 7 is not called.
\<close>

theorem wildcard_claim_counterexample:
  "map_option (map_sum id invoked)
     (performAll acceptAll sampleListeners idle 5
        [Subscribe ''*'' 4, Emit (sampleEvent ''chat'' 9)] newRun)
   = Some (Inr [(Wildcard, 4, sampleEvent ''chat'' 9), (Wildcard, 5, sampleEvent ''chat'' 9)])
   \<and> map_option (map_sum id invoked)
     (performAll acceptAll sampleListeners idle 5
        [Subscribe ''*'' 6, Subscribe ''*'' 7, Emit (sampleEvent ''chat'' 9)] newRun)
   = Some (Inr [(Wildcard, 6, sampleEvent ''chat'' 9)])"
  by (simp add: hub_eval)

text \<open>
  The same happens without any listener touching the sets: a caller that does not
  await \<open>emit\<close> and unsubscribes the wildcard listener 7 right away, or calls
  \<open>removeAllListeners\<close>, does so while the first listener is awaited, and listener
  7 is not called.
\<close>

lemma unawaited_emit_skips_unsubscribed_listener:
  "map_option (map_sum id invoked)
     (performAll acceptAll quiet unsubscribing 5
        [Subscribe ''*'' 3, Subscribe ''*'' 7, Emit (sampleEvent ''chat'' 9)] newRun)
   = Some (Inr [(Wildcard, 3, sampleEvent ''chat'' 9)])
   \<and> map_option (map_sum id invoked)
     (performAll acceptAll quiet (\<lambda>k. if k = 1 then [RemoveAll] else []) 5
        [Subscribe ''*'' 3, Subscribe ''*'' 7, Emit (sampleEvent ''chat'' 9)] newRun)
   = Some (Inr [(Wildcard, 3, sampleEvent ''chat'' 9)])"
  by (simp add: hub_eval)

text \<open>
  \<open>removeAllListeners\<close> during the first loop does not end it: the loop runs
  over the object it read from the \<open>Map\<close>, which still has its members.
\<close>

lemma removeAllListeners_leaves_the_type_loop_running:
  "map_option (map_sum id invoked)
     (performAll acceptAll quiet (\<lambda>k. if k = 1 then [RemoveAll] else []) 5
        [Subscribe ''chat'' 2, Subscribe ''chat'' 3, Subscribe ''*'' 7, Emit (sampleEvent ''chat'' 9)] newRun)
   = Some (Inr [(Kind ''chat'', 2, sampleEvent ''chat'' 9), (Kind ''chat'', 3, sampleEvent ''chat'' 9)])"
  by (simp add: hub_eval)

text \<open>
  C2, amended. Take a state a client can reach, an accepted event of any type, and
  an emission of it whose first loop, over the listeners of the type, ends. When no
  call made to the manager while the event is delivered (by a listener called for
  it, or by other code while \<open>emit\<close> awaits a listener) changes the wildcard
  set, \<open>emit\<close> returns, and after the listeners of the type it has called the
  wildcard listeners subscribed when the event was accepted, in the order of their
  subscription: each of them once, and no other. Calls that subscribe and unsubscribe
  listeners of a type, change the filters or the history are allowed, and listeners
  may throw. The first loop ends when no call made during it subscribes a listener
  to the type of the event.
\<close>

theorem wildcard_listeners_called_once_when_set_is_kept:
  "(performAll ft' lt' env' m cs newRun = Some (Inr r)
      \<and> snd (runFilters ft (set_values (filters (hub r))) event) = Inr True
      \<and> typeFanOut lt env n event (r\<lparr>hub := addToHistory event (hub r)\<rparr>) = Some r2
      \<and> (\<forall>(sl, l, e) \<in> set (drop (length (invoked r)) (invoked r2)).
            \<forall>c \<in> set (calls (lt l e)). keepsWildcards (globalListeners (hub r)) c)
      \<and> (\<forall>l \<in> set (set_values (globalListeners (hub r))).
            \<forall>c \<in> set (calls (lt l event)). keepsWildcards (globalListeners (hub r)) c)
      \<and> (\<forall>k. length (invoked r) < k
               \<and> k \<le> length (invoked r2) + length (set_values (globalListeners (hub r))) \<longrightarrow>
            (\<forall>c \<in> set (env k). keepsWildcards (globalListeners (hub r)) c))
      \<and> length (globalListeners (hub r)) < n
    \<longrightarrow> (\<exists>r'. emit ft lt env n event r = Some (Inr r')
          \<and> invoked r' = invoked r2 @ map (\<lambda>l. (Wildcard, l, event)) (set_values (globalListeners (hub r)))
          \<and> (\<forall>x \<in> set (drop (length (invoked r)) (invoked r2)). fst x = Kind (type event))
          \<and> (\<forall>l. count_list (drop (length (invoked r)) (invoked r')) (Wildcard, l, event) =
                    (if set_has (globalListeners (hub r)) l then 1 else 0))))
   \<and> (performAll ft' lt' env' m cs newRun = Some (Inr r)
      \<and> (\<forall>l \<in> set (set_values (listenersOf (type event) (hub r))).
            \<forall>c \<in> set (calls (lt l event)). \<not> subscribesTo (type event) c)
      \<and> (\<forall>k. length (invoked r) < k
               \<and> k \<le> length (invoked r) + length (set_values (listenersOf (type event) (hub r))) \<longrightarrow>
            (\<forall>c \<in> set (env k). \<not> subscribesTo (type event) c))
      \<and> length (listenersOf (type event) (hub r)) < n
    \<longrightarrow> (\<exists>r2. typeFanOut lt env n event (r\<lparr>hub := addToHistory event (hub r)\<rparr>) = Some r2))"
proof (intro conjI impI)
  let ?g = "globalListeners (hub r)"
  let ?r1 = "r\<lparr>hub := addToHistory event (hub r)\<rparr>"
  assume a: "performAll ft' lt' env' m cs newRun = Some (Inr r)
      \<and> snd (runFilters ft (set_values (filters (hub r))) event) = Inr True
      \<and> typeFanOut lt env n event ?r1 = Some r2
      \<and> (\<forall>(sl, l, e) \<in> set (drop (length (invoked r)) (invoked r2)).
            \<forall>c \<in> set (calls (lt l e)). keepsWildcards ?g c)
      \<and> (\<forall>l \<in> set (set_values ?g). \<forall>c \<in> set (calls (lt l event)). keepsWildcards ?g c)
      \<and> (\<forall>k. length (invoked r) < k \<and> k \<le> length (invoked r2) + length (set_values ?g) \<longrightarrow>
            (\<forall>c \<in> set (env k). keepsWildcards ?g c))
      \<and> length ?g < n"
  then have reach: "performAll ft' lt' env' m cs newRun = Some (Inr r)"
    and acc: "snd (runFilters ft (set_values (filters (hub r))) event) = Inr True"
    and typed: "typeFanOut lt env n event ?r1 = Some r2"
    and c1: "\<forall>(sl, l, e) \<in> set (drop (length (invoked ?r1)) (invoked r2)).
               \<forall>c \<in> set (calls (lt l e)). keepsWildcards ?g c"
    and c2: "\<forall>l \<in> set (set_values ?g). \<forall>c \<in> set (calls (lt l event)). keepsWildcards ?g c"
    and e: "\<forall>k. length (invoked r) < k \<and> k \<le> length (invoked r2) + length (set_values ?g) \<longrightarrow>
            (\<forall>c \<in> set (env k). keepsWildcards ?g c)"
    and fuel: "length ?g < n" by simp_all
  have d: "distinct (set_values ?g)" using reached_distinct [OF reach] .
  from typeFanOut_log [OF typed] obtain new1 where
    n1: "invoked r2 = invoked r @ new1" "\<forall>x \<in> set new1. fst x = Kind (type event)" by auto
  have e1: "\<forall>k. length (invoked ?r1) < k \<and> k \<le> length (invoked r2) \<longrightarrow>
              (\<forall>c \<in> set (env k). keepsWildcards ?g c)"
  proof (intro allI impI)
    fix k assume "length (invoked ?r1) < k \<and> k \<le> length (invoked r2)"
    then have "length (invoked r) < k \<and> k \<le> length (invoked r2) + length (set_values ?g)" by simp
    with e show "\<forall>c \<in> set (env k). keepsWildcards ?g c" by blast
  qed
  have g2: "globalListeners (hub r2) = ?g"
    by (rule typeFanOut_invariant [where Q = "keepsWildcards ?g" and P = "\<lambda>h. globalListeners h = ?g"
                                      and lt = lt and env = env, OF _ typed _ c1 e1])
       (simp_all add: keepsWildcards_applyCall addToHistory_def Let_def)
  have e2: "\<forall>k. length (invoked r2) < k \<and> k \<le> length (invoked r2) + length (set_values (drop 0 ?g)) \<longrightarrow>
              (\<forall>c \<in> set (env k). keepsWildcards ?g c)"
  proof (intro allI impI)
    fix k assume "length (invoked r2) < k \<and> k \<le> length (invoked r2) + length (set_values (drop 0 ?g))"
    then have "length (invoked r) < k \<and> k \<le> length (invoked r2) + length (set_values ?g)"
      using n1(1) by simp
    with e show "\<forall>c \<in> set (env k). keepsWildcards ?g c" by blast
  qed
  have "\<exists>r'. fanOut lt env n Wildcard GlobalSet 0 event r2 = Some r'
      \<and> invoked r' = invoked r2 @ map (\<lambda>l. (Wildcard, l, event)) (set_values (drop 0 ?g))
      \<and> globalListeners (hub r') = ?g"
    by (rule fanOut_wildcards [OF g2 _ e2]) (use c2 fuel in simp_all)
  then obtain r' where r': "fanOut lt env n Wildcard GlobalSet 0 event r2 = Some r'"
    and inv: "invoked r' = invoked r2 @ map (\<lambda>l. (Wildcard, l, event)) (set_values ?g)" by auto
  have em: "emit ft lt env n event r = Some (Inr r')"
    using acc typed r' by (simp add: emit_def)
  have cnt: "count_list (drop (length (invoked r)) (invoked r')) (Wildcard, l, event) =
          (if set_has ?g l then 1 else 0)" for l
    using d n1 count_list_other_slot [OF n1(2), of l event]
    by (simp add: inv count_list_append count_list_wildcards count_list_distinct set_has_iff)
  show "\<exists>r'. emit ft lt env n event r = Some (Inr r')
          \<and> invoked r' = invoked r2 @ map (\<lambda>l. (Wildcard, l, event)) (set_values ?g)
          \<and> (\<forall>x \<in> set (drop (length (invoked r)) (invoked r2)). fst x = Kind (type event))
          \<and> (\<forall>l. count_list (drop (length (invoked r)) (invoked r')) (Wildcard, l, event) =
                    (if set_has ?g l then 1 else 0))"
    using em inv n1 cnt by (intro exI [of _ r']) simp
next
  let ?r1 = "r\<lparr>hub := addToHistory event (hub r)\<rparr>"
  assume b: "performAll ft' lt' env' m cs newRun = Some (Inr r)
      \<and> (\<forall>l \<in> set (set_values (listenersOf (type event) (hub r))).
            \<forall>c \<in> set (calls (lt l event)). \<not> subscribesTo (type event) c)
      \<and> (\<forall>k. length (invoked r) < k
               \<and> k \<le> length (invoked r) + length (set_values (listenersOf (type event) (hub r))) \<longrightarrow>
            (\<forall>c \<in> set (env k). \<not> subscribesTo (type event) c))
      \<and> length (listenersOf (type event) (hub r)) < n"
  then have reach: "performAll ft' lt' env' m cs newRun = Some (Inr r)" by simp
  have same: "listeners (hub ?r1) = listeners (hub r)" "allocated (hub ?r1) = allocated (hub r)"
    "listenersOf (type event) (hub ?r1) = listenersOf (type event) (hub r)" "invoked ?r1 = invoked r"
    by (simp_all add: addToHistory_def listenersOf_def Let_def split: option.splits)
  from b have b1: "\<forall>l \<in> set (set_values (listenersOf (type event) (hub r))).
            \<forall>c \<in> set (calls (lt l event)). \<not> subscribesTo (type event) c"
    and b2: "\<forall>k. length (invoked r) < k
               \<and> k \<le> length (invoked r) + length (set_values (listenersOf (type event) (hub r))) \<longrightarrow>
            (\<forall>c \<in> set (env k). \<not> subscribesTo (type event) c)"
    and b3: "length (listenersOf (type event) (hub r)) < n" by blast+
  show "\<exists>r2. typeFanOut lt env n event ?r1 = Some r2"
  proof (rule typeFanOut_ends)
    show "\<forall>k a. listeners (hub ?r1) k = Some a \<longrightarrow>
             a < allocated (hub ?r1) \<and> (\<forall>k'. listeners (hub ?r1) k' = Some a \<longrightarrow> k' = k)"
      using reached_addresses [OF reach] by (simp only: same)
    show "\<forall>l \<in> set (set_values (listenersOf (type event) (hub ?r1))).
            \<forall>c \<in> set (calls (lt l event)). \<not> subscribesTo (type event) c"
      using b1 by (simp only: same)
    show "\<forall>j. length (invoked ?r1) < j
             \<and> j \<le> length (invoked ?r1) + length (set_values (listenersOf (type event) (hub ?r1))) \<longrightarrow>
           (\<forall>c \<in> set (env j). \<not> subscribesTo (type event) c)"
      using b2 by (simp only: same)
    show "length (listenersOf (type event) (hub ?r1)) < n"
      using b3 by (simp only: same)
  qed
qed

theorem wildcard_listeners_called_once_witness:
  "performAll acceptAll quiet idle 0
     [Subscribe ''*'' 3, Subscribe ''chat'' 9, Subscribe ''*'' 1, Unsubscribe ''*'' 3,
      Subscribe ''*'' 3, Subscribe ''*'' 1, Subscribe ''move'' 4] newRun
   = Some (Inr (reached [Subscribe ''*'' 3, Subscribe ''chat'' 9, Subscribe ''*'' 1, Unsubscribe ''*'' 3,
      Subscribe ''*'' 3, Subscribe ''*'' 1, Subscribe ''move'' 4]))
   \<and> globalListeners (hub (reached [Subscribe ''*'' 3, Subscribe ''chat'' 9, Subscribe ''*'' 1,
        Unsubscribe ''*'' 3, Subscribe ''*'' 3, Subscribe ''*'' 1, Subscribe ''move'' 4])) = [None, Some 1, Some 3]
   \<and> listenersOf ''chat'' (hub (reached [Subscribe ''*'' 3, Subscribe ''chat'' 9, Subscribe ''*'' 1,
        Unsubscribe ''*'' 3, Subscribe ''*'' 3, Subscribe ''*'' 1, Subscribe ''move'' 4])) = [Some 9]
   \<and> calls (sampleListeners 9 (sampleEvent ''chat'' 9)) = [Off ''chat'' 9]
   \<and> throws (sampleListeners 1 (sampleEvent ''chat'' 9)) = Some ''boom''
   \<and> busy 1 = [Off ''move'' 4, SetMax 50]
   \<and> map_option invoked
       (typeFanOut sampleListeners busy 4 (sampleEvent ''chat'' 9)
          ((reached [Subscribe ''*'' 3, Subscribe ''chat'' 9, Subscribe ''*'' 1, Unsubscribe ''*'' 3,
              Subscribe ''*'' 3, Subscribe ''*'' 1, Subscribe ''move'' 4])
           \<lparr>hub := addToHistory (sampleEvent ''chat'' 9)
              (hub (reached [Subscribe ''*'' 3, Subscribe ''chat'' 9, Subscribe ''*'' 1, Unsubscribe ''*'' 3,
                 Subscribe ''*'' 3, Subscribe ''*'' 1, Subscribe ''move'' 4]))\<rparr>))
     = Some [(Kind ''chat'', 9, sampleEvent ''chat'' 9)]
   \<and> map_option (map_sum id
        (\<lambda>r. (invoked r, listenersOf ''chat'' (hub r), listenersOf ''move'' (hub r), maxHistorySize (hub r))))
       (emit acceptAll sampleListeners busy 4 (sampleEvent ''chat'' 9)
          (reached [Subscribe ''*'' 3, Subscribe ''chat'' 9, Subscribe ''*'' 1, Unsubscribe ''*'' 3,
             Subscribe ''*'' 3, Subscribe ''*'' 1, Subscribe ''move'' 4]))
     = Some (Inr ([(Kind ''chat'', 9, sampleEvent ''chat'' 9), (Wildcard, 1, sampleEvent ''chat'' 9),
                   (Wildcard, 3, sampleEvent ''chat'' 9)],
                  [None], [None], 50))"
  using wildcard_listeners_called_once_when_set_is_kept
          [where ft' = acceptAll and lt' = quiet and env' = idle and m = 0
             and cs = "[Subscribe ''*'' 3, Subscribe ''chat'' 9, Subscribe ''*'' 1, Unsubscribe ''*'' 3,
                Subscribe ''*'' 3, Subscribe ''*'' 1, Subscribe ''move'' 4]"
             and r = "reached [Subscribe ''*'' 3, Subscribe ''chat'' 9, Subscribe ''*'' 1, Unsubscribe ''*'' 3,
                Subscribe ''*'' 3, Subscribe ''*'' 1, Subscribe ''move'' 4]"
             and ft = acceptAll and event = "sampleEvent ''chat'' 9" and lt = sampleListeners
             and env = busy and n = 4
             and ?r2.0 = "the (typeFanOut sampleListeners busy 4 (sampleEvent ''chat'' 9)
                ((reached [Subscribe ''*'' 3, Subscribe ''chat'' 9, Subscribe ''*'' 1, Unsubscribe ''*'' 3,
                    Subscribe ''*'' 3, Subscribe ''*'' 1, Subscribe ''move'' 4])
                 \<lparr>hub := addToHistory (sampleEvent ''chat'' 9)
                    (hub (reached [Subscribe ''*'' 3, Subscribe ''chat'' 9, Subscribe ''*'' 1, Unsubscribe ''*'' 3,
                       Subscribe ''*'' 3, Subscribe ''*'' 1, Subscribe ''move'' 4]))\<rparr>))"]
  by (simp add: hub_eval imp_conjL)

section \<open>The notifier\<close>

lemma attempt_nonempty: "attempt c call message \<noteq> []"
  by (cases c) (simp_all add: attempt_def)

lemma sendMcpNotification_nonempty: "sendMcpNotification (Some s) message event \<noteq> []"
  by (simp add: sendMcpNotification_def attempt_nonempty)

lemma notify_nonempty_iff:
  "(notify rt nt event \<noteq> []) = (enabled nt \<and> shouldNotify nt event)"
  by (cases "server nt") (simp_all add: notify_def Let_def sendMcpNotification_nonempty)

text \<open>
  C5. Every delivery, to the server or to the log, is an effect of \<open>notify\<close>, so
  that delivery is attempted exactly when the list of effects is not empty: when the
  notifier is enabled and the type of the event is in the set of important types or
  its severity is error or warning. A disabled notifier does nothing. For an enabled
  notifier, a \<open>chat\<close> event of severity info is notified iff \<open>chat\<close> is in the
  set, and an event of severity error always.
\<close>

theorem notify_iff_enabled_and_important:
  "(notify rt nt event \<noteq> []) =
     (enabled nt \<and> (set_has (importantEventTypes nt) (type event)
                     \<or> severity event = ERROR \<or> severity event = WARNING))
   \<and> (\<not> enabled nt \<longrightarrow> notify rt nt event = [])
   \<and> (enabled nt \<and> type event = ''chat'' \<and> severity event = INFO \<longrightarrow>
        (notify rt nt event \<noteq> []) = set_has (importantEventTypes nt) ''chat'')
   \<and> (enabled nt \<and> severity event = ERROR \<longrightarrow> notify rt nt event \<noteq> [])"
  unfolding notify_nonempty_iff by (auto simp: shouldNotify_def notify_def)

theorem notify_iff_enabled_and_important_witness:
  "enabled newEventNotifier
   \<and> notify sampleRuntime newEventNotifier chatEvent \<noteq> []
   \<and> notify sampleRuntime (removeImportantEventType ''chat'' newEventNotifier) chatEvent = []
   \<and> notify sampleRuntime (removeImportantEventType ''death'' newEventNotifier) deathEvent \<noteq> []
   \<and> notify sampleRuntime (setEnabled False newEventNotifier) deathEvent = []"
  using notify_iff_enabled_and_important [of sampleRuntime newEventNotifier chatEvent]
        notify_iff_enabled_and_important [of sampleRuntime "removeImportantEventType ''chat'' newEventNotifier" chatEvent]
        notify_iff_enabled_and_important [of sampleRuntime "removeImportantEventType ''death'' newEventNotifier" deathEvent]
        notify_iff_enabled_and_important [of sampleRuntime "setEnabled False newEventNotifier" deathEvent]
  by (simp add: newEventNotifier_def removeImportantEventType_def setEnabled_def chatEvent_def deathEvent_def
        set_has_def set_delete_def)

section \<open>The adapter\<close>

subsection \<open>Registration\<close>

lemmas reg_defs = registerAllEvents_def registerConnectionEvents_def registerChatEvents_def
  registerEntityEvents_def registerBlockEvents_def registerItemEvents_def registerDamageEvents_def
  registerDeathEvents_def registerMovementEvents_def registerErrorEvents_def bot_on_def bot_once_def
  newBotEventRegistry_def

lemma attached_registerAllEvents:
  "attached (registerAllEvents newBotEventRegistry) = ((OfBot, ''spawn''), True) # allAttached"
  by (simp add: reg_defs allAttached_def)

lemma handler_attached: "attached (fst (handler rt bt now stamp sig reg)) = attached reg"
  by (cases sig) (simp_all add: Let_def split: option.splits)

lemma map_of_allAttached:
  "map_of allAttached (signalName sig) = (if sig = SigSpawn then None else Some False)"
  by (cases sig) (simp_all add: allAttached_def)

lemma raise_armed:
  assumes "attached reg = ((OfBot, ''spawn''), True) # allAttached"
  shows "raise rt bt now stamp sig reg =
           handler rt bt now stamp sig (if sig = SigSpawn then reg\<lparr>attached := allAttached\<rparr> else reg)"
  using assms by (cases sig) (simp_all add: raise_def allAttached_def)

lemma raise_fired:
  assumes "attached reg = allAttached"
  shows "raise rt bt now stamp sig reg = (if sig = SigSpawn then (reg, []) else handler rt bt now stamp sig reg)"
  using assms by (simp add: raise_def map_of_allAttached)

lemma emittedEvents_append [simp]: "emittedEvents (a @ b) = emittedEvents a @ emittedEvents b"
  by (simp add: emittedEvents_def map_filter_def)

lemma emittedEvents_Nil [simp]: "emittedEvents [] = []"
  by (simp add: emittedEvents_def map_filter_def)

lemma registered_initial: "registered (registerAllEvents newBotEventRegistry)"
  by (simp add: registered_def attached_registerAllEvents)

lemma lastMoveTime_initial: "lastMoveTime (registerAllEvents newBotEventRegistry) = 0"
  by (simp add: reg_defs)

lemma raise_registered: "registered reg \<Longrightarrow> registered (fst (raise rt bt now stamp sig reg))"
  using handler_attached [of rt bt now stamp sig reg]
        handler_attached [of rt bt now stamp sig "reg\<lparr>attached := allAttached\<rparr>"]
  by (auto simp: registered_def raise_armed raise_fired split: if_splits)

lemma session_append:
  "session rt (a @ b) reg =
     (case session rt a reg of (reg1, out1) \<Rightarrow>
        case session rt b reg1 of (reg2, out2) \<Rightarrow> (reg2, out1 @ out2))"
  by (induction a arbitrary: reg) (auto split: prod.splits)

lemma session_single:
  "session rt (a @ [(bt, now, stamp, sig)]) reg =
     (fst (raise rt bt now stamp sig (fst (session rt a reg))),
      snd (session rt a reg) @ snd (raise rt bt now stamp sig (fst (session rt a reg))))"
  by (simp add: session_append split: prod.splits)

lemma session_registered: "registered reg \<Longrightarrow> registered (fst (session rt occ reg))"
proof (induction occ arbitrary: reg)
  case Nil
  then show ?case by simp
next
  case (Cons oc occ)
  obtain bt now stamp sig where oc: "oc = (bt, now, stamp, sig)" by (cases oc) auto
  obtain reg1 out1 where r: "raise rt bt now stamp sig reg = (reg1, out1)" by force
  obtain reg2 out2 where s: "session rt occ reg1 = (reg2, out2)" by force
  have "registered reg1"
    using raise_registered [OF Cons.prems, of rt bt now stamp sig] r by simp
  from Cons.IH [OF this] show ?case
    by (simp add: oc r s)
qed

lemmas eval_defs = raise_def attached_registerAllEvents allAttached_def lastMoveTime_initial
        emittedEvents_def map_filter_def ofType_def sampleBot_def botPosition_def Let_def
        raised_def sampleSession_def payload_def moveEvent_def flooredOrUndefined_def

subsection \<open>Messages of the bot itself\<close>

text \<open>The \<open>chat\<close> handler returns at once on a message of the bot's own name.\<close>

lemma chat_from_self_suppressed:
  "snd (raise rt bt now stamp (SigChat (username bt) message) reg) = []"
  by (simp add: raise_def split: option.splits)

text \<open>
  C6. The claim: a chat-like signal, whispers included, whose sender is the bot's
  own username emits no event. The code: the \<open>whisper\<close> handler has no such test,
  and a whisper of the bot to itself is emitted as a \<open>chat\<close> event.
\<close>

theorem whisper_from_self_is_emitted:
  "snd (session sampleRuntime
          [(sampleBot, 1700000000000, 1700000000000, SigWhisper (username sampleBot) ''hi'')]
          (registerAllEvents newBotEventRegistry))
   = [CreateAndEmit 1700000000000 ''chat'' INFO (zh_whisper @ ''Rackster: hi'')
        (Some [(''username'', JStr ''Rackster''), (''message'', JStr ''hi''),
               (''isBot'', JBool False), (''isWhisper'', JBool True)])]"
  by (simp add: raise_def attached_registerAllEvents allAttached_def sampleBot_def)

subsection \<open>Lifecycle signals\<close>

lemma raised_Cons:
  "raised name ((bt, now, stamp, sig) # occ) =
     (if signalName sig = name then [(bt, now, stamp, sig)] else []) @ raised name occ"
  by (simp add: raised_def)

lemma raised_Nil [simp]: "raised name [] = []"
  by (simp add: raised_def)

lemma signalName_spawn: "(signalName sig = (OfBot, ''spawn'')) = (sig = SigSpawn)"
  by (cases sig) simp_all

text \<open>After the first \<open>spawn\<close> signal its handler is detached, and stays so.\<close>

lemma session_fired:
  "attached reg = allAttached \<Longrightarrow> attached (fst (session rt occ reg)) = allAttached"
proof (induction occ arbitrary: reg)
  case Nil
  then show ?case by simp
next
  case (Cons oc occ)
  obtain bt now stamp sig where oc: "oc = (bt, now, stamp, sig)" by (cases oc) auto
  obtain reg1 out1 where r: "raise rt bt now stamp sig reg = (reg1, out1)" by force
  have a1: "attached reg1 = allAttached"
    using r Cons.prems handler_attached [of rt bt now stamp sig reg]
    by (auto simp: raise_fired split: if_splits)
  from Cons.IH [OF a1] show ?case
    by (auto simp: oc r split: prod.splits)
qed

lemma session_armed:
  "attached reg = ((OfBot, ''spawn''), True) # allAttached \<Longrightarrow>
   attached (fst (session rt occ reg)) =
     (if raised (OfBot, ''spawn'') occ = [] then ((OfBot, ''spawn''), True) # allAttached else allAttached)"
proof (induction occ arbitrary: reg)
  case Nil
  then show ?case by simp
next
  case (Cons oc occ)
  obtain bt now stamp sig where oc: "oc = (bt, now, stamp, sig)" by (cases oc) auto
  obtain reg1 out1 where r: "raise rt bt now stamp sig reg = (reg1, out1)" by force
  show ?case
  proof (cases "sig = SigSpawn")
    case True
    have r': "raise rt bt now stamp SigSpawn reg = (reg1, out1)" using r True by simp
    have a1: "attached reg1 = allAttached"
      using r' Cons.prems by (auto simp: raise_armed)
    show ?thesis
      using session_fired [OF a1, of rt occ]
      by (auto simp: oc True r' raised_Cons split: prod.splits)
  next
    case False
    have a1: "attached reg1 = ((OfBot, ''spawn''), True) # allAttached"
      using r Cons.prems False handler_attached [of rt bt now stamp sig reg]
      by (simp add: raise_armed)
    show ?thesis
      using Cons.IH [OF a1] False
      by (auto simp: oc r raised_Cons signalName_spawn split: prod.splits)
  qed
qed

text \<open>
  C10. In every session after \<open>registerAllEvents\<close>, whatever signals were raised
  before: a \<open>spawn\<close> signal makes the adapter emit the \<open>spawn\<close> event, of
  severity \<open>success\<close>, and nothing else when it is the first \<open>spawn\<close> signal of
  the session, and makes it emit nothing at all when it is not; a \<open>login\<close>, a
  \<open>kicked\<close> and an \<open>end\<close> signal each make it emit their one event, every time.
\<close>

theorem spawn_handled_once_other_lifecycle_signals_each_time:
  "snd (session rt (occ @ [(bt, now, stamp, SigSpawn)]) (registerAllEvents newBotEventRegistry))
     = snd (session rt occ (registerAllEvents newBotEventRegistry))
       @ (if raised (OfBot, ''spawn'') occ = []
          then [CreateAndEmit stamp ''spawn'' SUCCESS zh_bot_spawned
                  (Some [(''position'', flooredOrUndefined (botPosition bt)),
                         (''username'', JStr (username bt))])]
          else [])
   \<and> snd (session rt (occ @ [(bt, now, stamp, SigLogin)]) (registerAllEvents newBotEventRegistry))
     = snd (session rt occ (registerAllEvents newBotEventRegistry))
       @ [CreateAndEmit stamp ''login'' INFO zh_bot_logged_in (Some [(''username'', JStr (username bt))])]
   \<and> snd (session rt (occ @ [(bt, now, stamp, SigKicked why)]) (registerAllEvents newBotEventRegistry))
     = snd (session rt occ (registerAllEvents newBotEventRegistry))
       @ [CreateAndEmit stamp ''kicked'' ERROR (zh_bot_kicked @ shown rt (formatError rt why))
            (Some [(''reason'', formatError rt why), (''username'', JStr (username bt))])]
   \<and> snd (session rt (occ @ [(bt, now, stamp, SigEnd why)]) (registerAllEvents newBotEventRegistry))
     = snd (session rt occ (registerAllEvents newBotEventRegistry))
       @ [CreateAndEmit stamp ''end'' WARNING (zh_bot_disconnected @ shown rt (formatError rt why))
            (Some [(''reason'', formatError rt why)])]"
proof -
  let ?reg = "fst (session rt occ (registerAllEvents newBotEventRegistry))"
  have a: "attached ?reg =
     (if raised (OfBot, ''spawn'') occ = [] then ((OfBot, ''spawn''), True) # allAttached else allAttached)"
    using session_armed [OF attached_registerAllEvents] .
  have spawn: "snd (raise rt bt now stamp SigSpawn ?reg) =
       (if raised (OfBot, ''spawn'') occ = []
          then [CreateAndEmit stamp ''spawn'' SUCCESS zh_bot_spawned
                  (Some [(''position'', flooredOrUndefined (botPosition bt)),
                         (''username'', JStr (username bt))])]
          else [])"
    using a by (simp add: raise_armed raise_fired)
  have other: "snd (raise rt bt now stamp sig ?reg) = snd (handler rt bt now stamp sig ?reg)"
    if "sig \<noteq> SigSpawn" for sig
    using a that by (cases "raised (OfBot, ''spawn'') occ = []") (simp_all add: raise_armed raise_fired)
  show ?thesis
    by (simp add: session_single spawn other)
qed

theorem spawn_handled_once_witness:
  "snd (session sampleRuntime sampleSession (registerAllEvents newBotEventRegistry))
   = [CreateAndEmit 1700000000000 ''spawn'' SUCCESS zh_bot_spawned
        (Some [(''position'', JObj [(''x'', JNum 1), (''y'', JNum 64), (''z'', JNum (- 3))]),
               (''username'', JStr ''Rackster'')]),
      CreateAndEmit 1700000000001 ''login'' INFO zh_bot_logged_in (Some [(''username'', JStr ''Rackster'')]),
      CreateAndEmit 1700000000003 ''end'' WARNING (zh_bot_disconnected @ ''?'')
        (Some [(''reason'', JStr ''?'')]),
      CreateAndEmit 1700000000004 ''login'' INFO zh_bot_logged_in (Some [(''username'', JStr ''Rackster'')])]
   \<and> map (fst \<circ> snd) (raised (OfBot, ''spawn'') sampleSession)
     = [1700000000000, 1700000000002, 1700000000005]
   \<and> snd (session sampleRuntime (sampleSession @ [(sampleBot, 1700000000006, 1700000000006, SigSpawn)])
            (registerAllEvents newBotEventRegistry))
     = snd (session sampleRuntime sampleSession (registerAllEvents newBotEventRegistry))
   \<and> snd (session sampleRuntime ([] @ [(sampleBot, 1700000000000, 1700000000000, SigSpawn)])
            (registerAllEvents newBotEventRegistry))
     = [CreateAndEmit 1700000000000 ''spawn'' SUCCESS zh_bot_spawned
        (Some [(''position'', JObj [(''x'', JNum 1), (''y'', JNum 64), (''z'', JNum (- 3))]),
               (''username'', JStr ''Rackster'')])]"
  using spawn_handled_once_other_lifecycle_signals_each_time
          [of sampleRuntime sampleSession sampleBot 1700000000006 1700000000006]
        spawn_handled_once_other_lifecycle_signals_each_time
          [of sampleRuntime "[]" sampleBot 1700000000000 1700000000000]
  by (simp add: eval_defs flooredPosition_def math_floor_def formatError_def shown_def sampleRuntime_def)

subsection \<open>Movement\<close>

lemma signalName_move: "(signalName sig = (OfBot, ''move'')) = (sig = SigMove)"
  by (cases sig) simp_all

lemma handler_other_signal:
  "sig \<noteq> SigMove \<Longrightarrow> lastMoveTime (fst (handler rt bt now stamp sig reg)) = lastMoveTime reg"
  by (cases sig; simp add: Let_def split: option.splits)

lemma raise_other_signal:
  assumes "registered reg" "sig \<noteq> SigMove"
  shows "lastMoveTime (fst (raise rt bt now stamp sig reg)) = lastMoveTime reg"
  using assms handler_other_signal [of sig rt bt now stamp reg]
        handler_other_signal [of sig rt bt now stamp "reg\<lparr>attached := allAttached\<rparr>"]
  by (auto simp: registered_def raise_armed raise_fired)

text \<open>
  The \<open>move\<close> handler: the signal passes the test of the clock when its reading is
  at least 500 ms after the stored one, the reading is stored then, and the event is
  emitted when the bot has a position.
\<close>

lemma handler_move:
  "lastMoveTime (fst (handler rt bt now stamp SigMove reg)) =
     (if lastMoveTime reg + 500 \<le> now then now else lastMoveTime reg)"
  "snd (handler rt bt now stamp SigMove reg) =
     (if lastMoveTime reg + 500 \<le> now
      then (case botPosition bt of None \<Rightarrow> [] | Some p \<Rightarrow> [moveEvent bt p stamp]) else [])"
  "\<not> lastMoveTime reg + 500 \<le> now \<Longrightarrow> handler rt bt now stamp SigMove reg = (reg, [])"
  by (auto simp add: Let_def moveEvent_def split: option.splits)

lemma raise_move:
  assumes "registered reg"
  shows "raise rt bt now stamp SigMove reg = handler rt bt now stamp SigMove reg"
  using assms by (auto simp: registered_def raise_armed raise_fired)

lemma emittedMoves_append:
  "emittedMoves rt (a @ b) reg = emittedMoves rt a reg @ emittedMoves rt b (fst (session rt a reg))"
  by (induction a arbitrary: reg) (auto split: prod.splits)

text \<open>The \<open>move\<close> events of a session are those of the \<open>move\<close> signals emitted.\<close>

lemma ofType_append [simp]: "ofType ty (a @ b) = ofType ty a @ ofType ty b"
  by (simp add: ofType_def)

lemma handler_move_events:
  "length (ofType ''move'' (emittedEvents (snd (handler rt bt now stamp sig reg)))) =
     (if sig = SigMove \<and> snd (handler rt bt now stamp sig reg) \<noteq> [] then 1 else 0)"
  by (cases sig) (simp_all add: emittedEvents_def map_filter_def ofType_def Let_def split: option.splits)

lemma raise_move_events:
  assumes "registered reg"
  shows "length (ofType ''move'' (emittedEvents (snd (raise rt bt now stamp sig reg)))) =
     (if sig = SigMove \<and> snd (raise rt bt now stamp sig reg) \<noteq> [] then 1 else 0)"
proof (cases "sig = SigSpawn")
  case True
  then show ?thesis
    using assms
    by (auto simp: registered_def raise_armed raise_fired emittedEvents_def map_filter_def ofType_def)
next
  case False
  then have "raise rt bt now stamp sig reg = handler rt bt now stamp sig reg"
    using assms by (auto simp: registered_def raise_armed raise_fired)
  then show ?thesis
    using handler_move_events [of rt bt now stamp sig reg] by (simp del: handler.simps)
qed

lemma session_move_events:
  "registered reg \<Longrightarrow>
   length (ofType ''move'' (emittedEvents (snd (session rt occ reg)))) = length (emittedMoves rt occ reg)"
proof (induction occ arbitrary: reg)
  case Nil
  then show ?case by (simp add: ofType_def)
next
  case (Cons oc occ)
  obtain bt now stamp sig where oc: "oc = (bt, now, stamp, sig)" by (cases oc) auto
  obtain reg1 out1 where r: "raise rt bt now stamp sig reg = (reg1, out1)" by force
  obtain reg2 out2 where s: "session rt occ reg1 = (reg2, out2)" by force
  have reg1: "registered reg1"
    using raise_registered [OF Cons.prems, of rt bt now stamp sig] r by simp
  have "length (ofType ''move'' (emittedEvents out1)) = (if sig = SigMove \<and> out1 \<noteq> [] then 1 else 0)"
    using raise_move_events [OF Cons.prems, of rt bt now stamp sig] r by simp
  then show ?case
    using Cons.IH [OF reg1] s by (simp add: oc r)
qed

lemma session_spacing:
  assumes "registered reg"
  shows "sorted_wrt (\<lambda>a b. a + 500 \<le> b) (emittedMoves rt occ reg)
       \<and> (\<forall>t \<in> set (emittedMoves rt occ reg). lastMoveTime reg + 500 \<le> t)"
  using assms
proof (induction occ arbitrary: reg)
  case Nil
  then show ?case by simp
next
  case (Cons oc occ)
  obtain bt now stamp sig where oc: "oc = (bt, now, stamp, sig)" by (cases oc) auto
  obtain reg1 out1 where r: "raise rt bt now stamp sig reg = (reg1, out1)" by force
  have reg1: "registered reg1"
    using raise_registered [OF Cons.prems, of rt bt now stamp sig] r by simp
  have IH: "sorted_wrt (\<lambda>a b. a + 500 \<le> b) (emittedMoves rt occ reg1)"
    "\<forall>t \<in> set (emittedMoves rt occ reg1). lastMoveTime reg1 + 500 \<le> t"
    using Cons.IH [OF reg1] by simp_all
  show ?case
  proof (cases "sig = SigMove")
    case False
    have "lastMoveTime reg1 = lastMoveTime reg"
      using raise_other_signal [OF Cons.prems False, of rt bt now stamp] r by simp
    then show ?thesis using IH False by (simp add: oc r)
  next
    case True
    have r': "raise rt bt now stamp SigMove reg = (reg1, out1)" using r True by simp
    have hr: "handler rt bt now stamp SigMove reg = (reg1, out1)"
      using raise_move [OF Cons.prems, of rt bt now stamp] r' by (simp del: handler.simps)
    have h: "lastMoveTime reg1 = (if lastMoveTime reg + 500 \<le> now then now else lastMoveTime reg)"
      "out1 = (if lastMoveTime reg + 500 \<le> now
               then (case botPosition bt of None \<Rightarrow> [] | Some p \<Rightarrow> [moveEvent bt p stamp]) else [])"
      using handler_move(1,2) [of rt bt now stamp reg] unfolding hr by simp_all
    show ?thesis
      using IH h by (auto simp: oc True r' split: if_splits option.splits)
  qed
qed

text \<open>
  When the bot has a position at every \<open>move\<close> signal, the stored reading is that
  of the last signal emitted.
\<close>

lemma session_gate_time:
  assumes "registered reg"
    and "\<forall>oc \<in> set (raised (OfBot, ''move'') occ). botPosition (fst oc) \<noteq> None"
  shows "lastMoveTime (fst (session rt occ reg)) = last (lastMoveTime reg # emittedMoves rt occ reg)"
  using assms
proof (induction occ arbitrary: reg)
  case Nil
  then show ?case by simp
next
  case (Cons oc occ)
  obtain bt now stamp sig where oc: "oc = (bt, now, stamp, sig)" by (cases oc) auto
  obtain reg1 out1 where r: "raise rt bt now stamp sig reg = (reg1, out1)" by force
  obtain reg2 out2 where s: "session rt occ reg1 = (reg2, out2)" by force
  have reg1: "registered reg1"
    using raise_registered [OF Cons.prems(1), of rt bt now stamp sig] r by simp
  have rest: "\<forall>oc \<in> set (raised (OfBot, ''move'') occ). botPosition (fst oc) \<noteq> None"
    using Cons.prems(2) by (simp add: oc raised_Cons split: if_splits)
  have IH: "lastMoveTime reg2 = last (lastMoveTime reg1 # emittedMoves rt occ reg1)"
    using Cons.IH [OF reg1 rest] s by simp
  show ?case
  proof (cases "sig = SigMove")
    case False
    have "lastMoveTime reg1 = lastMoveTime reg"
      using raise_other_signal [OF Cons.prems(1) False, of rt bt now stamp] r by simp
    then show ?thesis using IH False by (simp add: oc r s)
  next
    case True
    have r': "raise rt bt now stamp SigMove reg = (reg1, out1)" using r True by simp
    obtain p where pos: "botPosition bt = Some p"
      using Cons.prems(2) True by (auto simp: oc raised_Cons)
    have hr: "handler rt bt now stamp SigMove reg = (reg1, out1)"
      using raise_move [OF Cons.prems(1), of rt bt now stamp] r' by (simp del: handler.simps)
    have h: "lastMoveTime reg1 = (if lastMoveTime reg + 500 \<le> now then now else lastMoveTime reg)"
      "out1 = (if lastMoveTime reg + 500 \<le> now then [moveEvent bt p stamp] else [])"
      using handler_move(1,2) [of rt bt now stamp reg] pos unfolding hr by simp_all
    show ?thesis using IH h by (simp add: oc True r' s)
  qed
qed

lemma next_move_signal:
  assumes "\<forall>oc \<in> set (raised (OfBot, ''move'') occ). botPosition (fst oc) \<noteq> None"
    and "botPosition bt = Some p" "500 \<le> now"
  shows "(if emittedMoves rt occ (registerAllEvents newBotEventRegistry) = []
             \<or> last (emittedMoves rt occ (registerAllEvents newBotEventRegistry)) + 500 \<le> now
          then snd (session rt (occ @ [(bt, now, stamp, SigMove)]) (registerAllEvents newBotEventRegistry))
                 = snd (session rt occ (registerAllEvents newBotEventRegistry)) @ [moveEvent bt p stamp]
               \<and> emittedMoves rt (occ @ [(bt, now, stamp, SigMove)]) (registerAllEvents newBotEventRegistry)
                 = emittedMoves rt occ (registerAllEvents newBotEventRegistry) @ [now]
          else session rt (occ @ [(bt, now, stamp, SigMove)]) (registerAllEvents newBotEventRegistry)
                 = session rt occ (registerAllEvents newBotEventRegistry)
               \<and> emittedMoves rt (occ @ [(bt, now, stamp, SigMove)]) (registerAllEvents newBotEventRegistry)
                 = emittedMoves rt occ (registerAllEvents newBotEventRegistry))"
proof -
  let ?init = "registerAllEvents newBotEventRegistry"
  let ?reg = "fst (session rt occ ?init)"
  let ?em = "emittedMoves rt occ ?init"
  have reg: "registered ?reg"
    using session_registered [OF registered_initial, of rt occ] .
  have gate: "lastMoveTime ?reg = last (0 # ?em)"
    using session_gate_time [OF registered_initial assms(1), of rt]
    by (simp add: lastMoveTime_initial)
  have pass: "(lastMoveTime ?reg + 500 \<le> now) = (?em = [] \<or> last ?em + 500 \<le> now)"
    using gate assms(3) by (cases "?em = []") simp_all
  have r: "raise rt bt now stamp SigMove ?reg = handler rt bt now stamp SigMove ?reg"
    using raise_move [OF reg] .
  show ?thesis
  proof (cases "?em = [] \<or> last ?em + 500 \<le> now")
    case True
    then have "snd (handler rt bt now stamp SigMove ?reg) = [moveEvent bt p stamp]"
      using handler_move(2) [of rt bt now stamp ?reg] pass assms(2) by simp
    then show ?thesis
      using True by (simp add: session_single emittedMoves_append r case_prod_unfold del: handler.simps)
  next
    case False
    then have "handler rt bt now stamp SigMove ?reg = (?reg, [])"
      using handler_move(3) [of ?reg now rt bt stamp] pass by simp
    then show ?thesis
      using False by (simp add: session_single emittedMoves_append r case_prod_unfold del: handler.simps)
  qed
qed

lemma example_moves:
  assumes "500 \<le> T" "botPosition b1 = Some p1" "botPosition b4 = Some p4"
  shows "snd (session rt [(b1, T, s1, SigMove), (b2, T + 100, s2, SigMove), (b3, T + 200, s3, SigMove),
                          (b4, T + 600, s4, SigMove)]
            (registerAllEvents newBotEventRegistry)) = [moveEvent b1 p1 s1, moveEvent b4 p4 s4]"
proof -
  let ?init = "registerAllEvents newBotEventRegistry"
  have reg: "registered ?init" "lastMoveTime ?init = 0"
    by (simp_all add: registered_initial lastMoveTime_initial)
  obtain reg1 where 1: "handler rt b1 T s1 SigMove ?init = (reg1, [moveEvent b1 p1 s1])"
    and l1: "lastMoveTime reg1 = T" and a1: "attached reg1 = attached ?init"
    using assms(1,2) reg(2) by (simp add: Let_def moveEvent_def)
  have reg1: "registered reg1" using reg(1) a1 by (simp add: registered_def)
  have 2: "handler rt b2 (T + 100) s2 SigMove reg1 = (reg1, [])"
    using l1 by simp
  have 3: "handler rt b3 (T + 200) s3 SigMove reg1 = (reg1, [])"
    using l1 by simp
  have 4: "snd (handler rt b4 (T + 600) s4 SigMove reg1) = [moveEvent b4 p4 s4]"
    using l1 assms(3) by (simp add: Let_def moveEvent_def)
  show ?thesis
    by (simp add: raise_move [OF reg(1)] raise_move [OF reg1] 1 2 3 4 case_prod_unfold
             del: handler.simps)
qed

text \<open>
  C7. Time is the reading of \<open>Date.now()\<close> that the handler takes when a \<open>move\<close>
  signal arrives. In every session the signals emitted are at least 500 ms apart, and
  the \<open>move\<close> events are theirs: one for each. In a session of a bot that has a
  position at every \<open>move\<close> signal, with clock readings of at least 500 (the
  clock counts from 1970), a further \<open>move\<close> signal is emitted, as one \<open>move\<close>
  event, iff no \<open>move\<close> signal was emitted before or its reading is at least 500
  ms after that of the last one emitted; otherwise it is dropped: the session is in
  the state and has the output it had without the signal. Signals at \<open>T\<close>,
  \<open>T + 100\<close>, \<open>T + 200\<close>, \<open>T + 600\<close> emit two events, for the first and
  the last.
\<close>

theorem movement_events_rate_limited:
  "sorted_wrt (\<lambda>a b. a + 500 \<le> b) (emittedMoves rt occ (registerAllEvents newBotEventRegistry))
   \<and> length (ofType ''move'' (emittedEvents (snd (session rt occ (registerAllEvents newBotEventRegistry)))))
       = length (emittedMoves rt occ (registerAllEvents newBotEventRegistry))
   \<and> ((\<forall>oc \<in> set (raised (OfBot, ''move'') occ). botPosition (fst oc) \<noteq> None)
        \<and> botPosition bt = Some p \<and> 500 \<le> now \<longrightarrow>
      (if emittedMoves rt occ (registerAllEvents newBotEventRegistry) = []
             \<or> last (emittedMoves rt occ (registerAllEvents newBotEventRegistry)) + 500 \<le> now
       then snd (session rt (occ @ [(bt, now, stamp, SigMove)]) (registerAllEvents newBotEventRegistry))
              = snd (session rt occ (registerAllEvents newBotEventRegistry)) @ [moveEvent bt p stamp]
            \<and> emittedMoves rt (occ @ [(bt, now, stamp, SigMove)]) (registerAllEvents newBotEventRegistry)
              = emittedMoves rt occ (registerAllEvents newBotEventRegistry) @ [now]
       else session rt (occ @ [(bt, now, stamp, SigMove)]) (registerAllEvents newBotEventRegistry)
              = session rt occ (registerAllEvents newBotEventRegistry)
            \<and> emittedMoves rt (occ @ [(bt, now, stamp, SigMove)]) (registerAllEvents newBotEventRegistry)
              = emittedMoves rt occ (registerAllEvents newBotEventRegistry)))
   \<and> (500 \<le> T \<and> botPosition b1 = Some p1 \<and> botPosition b4 = Some p4 \<longrightarrow>
      snd (session rt
          [(b1, T, s1, SigMove), (b2, T + 100, s2, SigMove), (b3, T + 200, s3, SigMove),
           (b4, T + 600, s4, SigMove)]
          (registerAllEvents newBotEventRegistry)) = [moveEvent b1 p1 s1, moveEvent b4 p4 s4])"
  using session_spacing [OF registered_initial, of rt occ]
        session_move_events [OF registered_initial, of rt occ]
        next_move_signal [of occ bt p now rt stamp] example_moves [of T b1 p1 b4 p4 rt s1 b2 s2 b3 s3 s4]
  by blast

theorem movement_events_rate_limited_witness:
  "emittedMoves sampleRuntime
      [(sampleBot, 1700000000000, 1700000000003, SigMove), (sampleBot, 1700000000100, 1700000000100, SigMove)]
      (registerAllEvents newBotEventRegistry) = [1700000000000]
   \<and> map timestamp (ofType ''move'' (emittedEvents (snd (session sampleRuntime
      [(sampleBot, 1700000000000, 1700000000003, SigMove), (sampleBot, 1700000000100, 1700000000100, SigMove)]
      (registerAllEvents newBotEventRegistry))))) = [1700000000003]
   \<and> botPosition sampleBot = Some (Vec3 (3/2) 64 (-5/2))
   \<and> snd (session sampleRuntime
      ([(sampleBot, 1700000000000, 1700000000003, SigMove), (sampleBot, 1700000000100, 1700000000100, SigMove)]
         @ [(sampleBot, 1700000000500, 1700000000500, SigMove)])
      (registerAllEvents newBotEventRegistry))
     = [moveEvent sampleBot (Vec3 (3/2) 64 (-5/2)) 1700000000003,
        moveEvent sampleBot (Vec3 (3/2) 64 (-5/2)) 1700000000500]
   \<and> session sampleRuntime
      ([(sampleBot, 1700000000000, 1700000000003, SigMove), (sampleBot, 1700000000100, 1700000000100, SigMove)]
         @ [(sampleBot, 1700000000499, 1700000000499, SigMove)])
      (registerAllEvents newBotEventRegistry)
     = session sampleRuntime
      [(sampleBot, 1700000000000, 1700000000003, SigMove), (sampleBot, 1700000000100, 1700000000100, SigMove)]
      (registerAllEvents newBotEventRegistry)
   \<and> snd (session sampleRuntime
      [(sampleBot, 1700000000000, 1700000000001, SigMove),
       (sampleBot, 1700000000000 + 100, 1700000000101, SigMove),
       (sampleBot, 1700000000000 + 200, 1700000000201, SigMove),
       (sampleBot, 1700000000000 + 600, 1700000000601, SigMove)]
      (registerAllEvents newBotEventRegistry))
     = [moveEvent sampleBot (Vec3 (3/2) 64 (-5/2)) 1700000000001,
        moveEvent sampleBot (Vec3 (3/2) 64 (-5/2)) 1700000000601]"
  using movement_events_rate_limited
          [where rt = sampleRuntime
             and occ = "[(sampleBot, 1700000000000, 1700000000003, SigMove),
                         (sampleBot, 1700000000100, 1700000000100, SigMove)]"
             and bt = sampleBot and p = "Vec3 (3/2) 64 (-5/2)"
             and now = 1700000000500 and stamp = 1700000000500 and T = 1700000000000
             and ?b1.0 = sampleBot and ?b2.0 = sampleBot and ?b3.0 = sampleBot and ?b4.0 = sampleBot
             and ?p1.0 = "Vec3 (3/2) 64 (-5/2)" and ?p4.0 = "Vec3 (3/2) 64 (-5/2)"
             and ?s1.0 = 1700000000001 and ?s2.0 = 1700000000101 and ?s3.0 = 1700000000201
             and ?s4.0 = 1700000000601]
        movement_events_rate_limited
          [where rt = sampleRuntime
             and occ = "[(sampleBot, 1700000000000, 1700000000003, SigMove),
                         (sampleBot, 1700000000100, 1700000000100, SigMove)]"
             and bt = sampleBot and p = "Vec3 (3/2) 64 (-5/2)"
             and now = 1700000000499 and stamp = 1700000000499 and T = 1700000000000
             and ?b1.0 = sampleBot and ?b2.0 = sampleBot and ?b3.0 = sampleBot and ?b4.0 = sampleBot
             and ?p1.0 = "Vec3 (3/2) 64 (-5/2)" and ?p4.0 = "Vec3 (3/2) 64 (-5/2)"
             and ?s1.0 = 1700000000001 and ?s2.0 = 1700000000101 and ?s3.0 = 1700000000201
             and ?s4.0 = 1700000000601]
  by (simp add: eval_defs)

subsection \<open>Numbers in payloads\<close>

text \<open>
  C9, as the claim states it, fails: the health of the bot goes into the payload as
  it is, here \<open>19.5\<close>.
\<close>

theorem health_payload_not_truncated:
  "payload ''health''
     (snd (session sampleRuntime [(sampleBot, 1700000000000, 1700000000000, SigHealth)]
             (registerAllEvents newBotEventRegistry))) = [JNum (39 / 2)]
   \<and> health sampleBot = 39 / 2
   \<and> math_floor (39 / 2) = 19"
  by (simp add: eval_defs math_floor_def maxHealthOr20_def)

text \<open>
  C9, amended. The events built from the position of the bot or of an entity
  (\<open>spawn\<close>, \<open>entity_hurt\<close>, \<open>entity_death\<close>, \<open>entity_spawn\<close>, \<open>item_drop\<close>,
  \<open>death\<close>, \<open>respawn\<close>, \<open>jump\<close>, \<open>move\<close>) carry the coordinates rounded down
  to integers by \<open>Math.floor\<close>, or \<open>undefined\<close> when there is no position; the
  block events copy the coordinates of the block as they are; no other event has a
  position; \<open>health\<close> and \<open>maxHealth\<close> are copied as they are.
\<close>

theorem position_and_health_payloads:
  "payload ''position'' (snd (handler rt bt now stamp SigSpawn reg)) = [flooredOrUndefined (botPosition bt)]
   \<and> payload ''position'' (snd (handler rt bt now stamp (SigEntityHurt e) reg)) = [flooredOrUndefined (entityPosition e)]
   \<and> payload ''position'' (snd (handler rt bt now stamp (SigEntityDead e) reg)) = [flooredOrUndefined (entityPosition e)]
   \<and> payload ''position'' (snd (handler rt bt now stamp (SigEntitySpawn e) reg)) = [flooredOrUndefined (entityPosition e)]
   \<and> payload ''position'' (snd (handler rt bt now stamp (SigItemDrop e) reg)) = [flooredOrUndefined (entityPosition e)]
   \<and> payload ''position'' (snd (handler rt bt now stamp SigDeath reg)) = [flooredOrUndefined (botPosition bt)]
   \<and> payload ''position'' (snd (handler rt bt now stamp SigRespawn reg)) = [flooredOrUndefined (botPosition bt)]
   \<and> payload ''position'' (snd (handler rt bt now stamp SigJump reg)) = [flooredOrUndefined (botPosition bt)]
   \<and> payload ''position'' (snd (handler rt bt now stamp SigMove reg)) =
       (if lastMoveTime reg + 500 \<le> now
        then (case botPosition bt of None \<Rightarrow> [] | Some p \<Rightarrow> [flooredPosition p]) else [])
   \<and> payload ''position'' (snd (handler rt bt now stamp (SigBlockUpdate oldBlock newBlock) reg)) =
       (case oldBlock of
          None \<Rightarrow> []
        | Some old \<Rightarrow> if blockType old \<noteq> blockType newBlock
                      then [copiedPosition (blockPosition newBlock)] else [])
   \<and> payload ''position'' (snd (handler rt bt now stamp (SigBlockBreakProgressObserved block stage) reg)) =
       (if stage = 9 then [copiedPosition (blockPosition block)] else [])
   \<and> payload ''position'' (snd (handler rt bt now stamp SigLogin reg)) = []
   \<and> payload ''position'' (snd (handler rt bt now stamp (SigKicked why) reg)) = []
   \<and> payload ''position'' (snd (handler rt bt now stamp (SigEnd why) reg)) = []
   \<and> payload ''position'' (snd (handler rt bt now stamp (SigChat user message) reg)) = []
   \<and> payload ''position'' (snd (handler rt bt now stamp (SigWhisper user message) reg)) = []
   \<and> payload ''position'' (snd (handler rt bt now stamp (SigEntityGone e) reg)) = []
   \<and> payload ''position'' (snd (handler rt bt now stamp (SigItemCollect isBot item) reg)) = []
   \<and> payload ''position'' (snd (handler rt bt now stamp (SigUpdateSlot slotNo oldItem newItem) reg)) = []
   \<and> payload ''position'' (snd (handler rt bt now stamp SigHealth reg)) = []
   \<and> payload ''position'' (snd (handler rt bt now stamp SigHurt reg)) = []
   \<and> payload ''position'' (snd (handler rt bt now stamp (SigError err) reg)) = []
   \<and> flooredOrUndefined None = JUndefined
   \<and> flooredOrUndefined (Some (Vec3 a b c)) = flooredPosition (Vec3 a b c)
   \<and> flooredPosition (Vec3 a b c) =
       JObj [(''x'', JNum (of_int \<lfloor>a\<rfloor>)), (''y'', JNum (of_int \<lfloor>b\<rfloor>)), (''z'', JNum (of_int \<lfloor>c\<rfloor>))]
   \<and> copiedPosition (Vec3 a b c) = JObj [(''x'', JNum a), (''y'', JNum b), (''z'', JNum c)]
   \<and> payload ''health'' (snd (handler rt bt now stamp SigHealth reg)) = [JNum (health bt)]
   \<and> payload ''maxHealth'' (snd (handler rt bt now stamp SigHealth reg)) = [JNum (maxHealthOr20 bt)]
   \<and> payload ''health'' (snd (handler rt bt now stamp SigHurt reg)) = [JNum (health bt)]
   \<and> payload ''maxHealth'' (snd (handler rt bt now stamp SigHurt reg)) = [JNum (maxHealthOr20 bt)]
   \<and> payload ''health'' (snd (handler rt bt now stamp (SigEntityHurt e) reg)) = [numOrUndefined (entityHealth e)]"
  by (intro conjI)
     (simp_all add: payload_def emittedEvents_def map_filter_def Let_def flooredOrUndefined_def
        flooredPosition_def copiedPosition_def math_floor_def split: option.splits)

end
